theory Spec2Isabelle
  imports Main
begin

section \<open>Python values, exceptions and the module state\<close>

text \<open>
  The module \<^verbatim>\<open>sage/misc/edit_module.py\<close> keeps one global, \<^verbatim>\<open>edit_template\<close>,
  and runs one side effect, \<^verbatim>\<open>os.system(cmd)\<close>.  Exceptions are values of a sum type,
  the global and the commands handed to the shell are an explicit state that every
  operation returns, also when it raises.
\<close>

datatype pyval = PyNone | PyInt int | PyStr string

text \<open>
  Every \<^verbatim>\<open>ValueError\<close> of the module is told apart by the place that raises it:
  \<^item> \<open>InvalidPlaceholder\<close>: raised by \<^verbatim>\<open>string.Template.substitute\<close> at an ill-formed
    delimiter ("Invalid placeholder in string: ...");
  \<^item> \<open>OnlyFileAndLine\<close>: line 175, "Only ${file} and ${line} are allowed as template
    variables, and ${file} must occur.";
  \<^item> \<open>EditorNotKnown\<close>: line 208, "editor_name not known. ...";
  \<^item> \<open>UseSetEditTemplate\<close>: lines 264 and 267, "Use set_edit_template(<template_string>)
    to set a default".
  \<open>EnvError\<close> stands for whatever the environment raises (the introspection functions,
  \<^verbatim>\<open>open\<close>, \<^verbatim>\<open>re.sub\<close>).
\<close>

datatype value_error = InvalidPlaceholder | OnlyFileAndLine | EditorNotKnown | UseSetEditTemplate

datatype error =
    ValueError value_error
  | KeyError string
  | IndexError
  | EnvError string

datatype template = Template (template: string)

record state =
  edit_template :: "template option"
  shell :: "string list"

type_synonym 'a result = "((error + 'a) \<times> state) option"

subsection \<open>\<^verbatim>\<open>str\<close> of a value\<close>

fun str_nat :: "nat \<Rightarrow> string" where
  "str_nat n =
     (if n < 10 then [''0123456789'' ! n]
      else str_nat (n div 10) @ [''0123456789'' ! (n mod 10)])"

declare str_nat.simps [simp del]

definition str_int :: "int \<Rightarrow> string" where
  "str_int i = (if i < 0 then CHR ''-'' # str_nat (nat (- i)) else str_nat (nat i))"

fun str :: "pyval \<Rightarrow> string" where
  "str PyNone = ''None''"
| "str (PyInt i) = str_int i"
| "str (PyStr s) = s"

subsection \<open>Dictionaries with insertion order\<close>

type_synonym dict = "(string \<times> pyval) list"

fun dict_setitem :: "dict \<Rightarrow> string \<Rightarrow> pyval \<Rightarrow> dict" where
  "dict_setitem [] k v = [(k, v)]"
| "dict_setitem (p # ps) k v = (if fst p = k then (k, v) # ps else p # dict_setitem ps k v)"

definition dict_keys :: "dict \<Rightarrow> string list" where
  "dict_keys d = map fst d"

section \<open>\<^verbatim>\<open>string.Template\<close>\<close>

text \<open>
  The pattern of \<^verbatim>\<open>string.Template\<close> is
  \<^verbatim>\<open>\$(?:(?P<escaped>\$)|(?P<named>id)|{(?P<braced>id)}|(?P<invalid>))\<close> with
  \<^verbatim>\<open>id = (?a:[_a-z][_a-z0-9]*)\<close>, compiled with \<^verbatim>\<open>re.IGNORECASE\<close>.  A match starts at a
  \<^verbatim>\<open>$\<close>; the alternatives are tried in this order, and the last one matches the empty
  string, so that a \<^verbatim>\<open>$\<close> followed by nothing well-formed is an \<open>Invalid\<close> match of the
  \<^verbatim>\<open>$\<close> alone.
\<close>

datatype match_obj = Escaped | Named string | Braced string | Invalid

datatype piece = Text char | Match match_obj

definition idstart :: "char \<Rightarrow> bool" where
  "idstart c = (c \<in> set ''_abcdefghijklmnopqrstuvwxyzABCDEFGHIJKLMNOPQRSTUVWXYZ'')"

definition idchar :: "char \<Rightarrow> bool" where
  "idchar c = (idstart c \<or> c \<in> set ''0123456789'')"

definition braced_at :: "string \<Rightarrow> bool" where
  "braced_at r =
     (case r of [] \<Rightarrow> False
      | e # _ \<Rightarrow> idstart e \<and>
          (case dropWhile idchar r of [] \<Rightarrow> False | x # _ \<Rightarrow> x = CHR ''}''))"

text \<open>The successive non-overlapping matches of the pattern, with the text between them.\<close>

function find_matches :: "string \<Rightarrow> piece list" where
  "find_matches [] = []"
| "find_matches (c # s) =
     (if c \<noteq> CHR ''$'' then Text c # find_matches s
      else (case s of
        [] \<Rightarrow> [Match Invalid]
      | d # r \<Rightarrow>
          if d = CHR ''$'' then Match Escaped # find_matches r
          else if idstart d then
            Match (Named (takeWhile idchar s)) # find_matches (dropWhile idchar s)
          else if d = CHR ''{'' \<and> braced_at r then
            Match (Braced (takeWhile idchar r)) # find_matches (tl (dropWhile idchar r))
          else Match Invalid # find_matches s))"
  by pat_completeness auto
termination
proof (relation "measure length", goal_cases)
  case 1
  show ?case by simp
next
  case (2 c s)
  show ?case by simp
next
  case (3 c s d r)
  show ?case using 3 by simp
next
  case (4 c s d r)
  have "length (dropWhile idchar s) \<le> length s" by (rule length_dropWhile_le)
  then show ?case by simp
next
  case (5 c s d r)
  have "length (tl (dropWhile idchar r)) \<le> length r"
    using length_dropWhile_le [of idchar r] by simp
  with 5 show ?case by simp
next
  case (6 c s d r)
  show ?case by simp
qed

declare find_matches.simps [simp del]

text \<open>
  \<^verbatim>\<open>convert\<close> of \<^verbatim>\<open>Template.substitute\<close>: a name is looked up in the mapping
  (\<^verbatim>\<open>KeyError\<close> when it is missing), \<^verbatim>\<open>$$\<close> gives \<^verbatim>\<open>$\<close>, an invalid match raises.
\<close>

fun convert :: "dict \<Rightarrow> match_obj \<Rightarrow> error + string" where
  "convert mapping (Named n) =
     (case map_of mapping n of None \<Rightarrow> Inl (KeyError n) | Some v \<Rightarrow> Inr (str v))"
| "convert mapping (Braced n) =
     (case map_of mapping n of None \<Rightarrow> Inl (KeyError n) | Some v \<Rightarrow> Inr (str v))"
| "convert mapping Escaped = Inr ''$''"
| "convert mapping Invalid = Inl (ValueError InvalidPlaceholder)"

text \<open>\<^verbatim>\<open>convert\<close> of \<^verbatim>\<open>Template.safe_substitute\<close>: what cannot be replaced stays.\<close>

fun safe_convert :: "dict \<Rightarrow> match_obj \<Rightarrow> string" where
  "safe_convert mapping (Named n) =
     (case map_of mapping n of None \<Rightarrow> CHR ''$'' # n | Some v \<Rightarrow> str v)"
| "safe_convert mapping (Braced n) =
     (case map_of mapping n of None \<Rightarrow> ''${'' @ n @ ''}'' | Some v \<Rightarrow> str v)"
| "safe_convert mapping Escaped = ''$''"
| "safe_convert mapping Invalid = ''$''"

text \<open>
  \<^verbatim>\<open>pattern.sub(convert, template)\<close>: the matches are converted from left to right, and
  the first exception ends the call.
\<close>

fun sub_pieces :: "(match_obj \<Rightarrow> error + string) \<Rightarrow> piece list \<Rightarrow> error + string" where
  "sub_pieces f [] = Inr []"
| "sub_pieces f (Text c # ps) =
     (case sub_pieces f ps of Inl e \<Rightarrow> Inl e | Inr r \<Rightarrow> Inr (c # r))"
| "sub_pieces f (Match m # ps) =
     (case f m of
        Inl e \<Rightarrow> Inl e
      | Inr x \<Rightarrow> (case sub_pieces f ps of Inl e \<Rightarrow> Inl e | Inr r \<Rightarrow> Inr (x @ r)))"

definition substitute :: "template \<Rightarrow> dict \<Rightarrow> error + string" where
  "substitute t mapping = sub_pieces (convert mapping) (find_matches (template t))"

fun safe_sub_pieces :: "(match_obj \<Rightarrow> string) \<Rightarrow> piece list \<Rightarrow> string" where
  "safe_sub_pieces f [] = []"
| "safe_sub_pieces f (Text c # ps) = c # safe_sub_pieces f ps"
| "safe_sub_pieces f (Match m # ps) = f m @ safe_sub_pieces f ps"

definition safe_substitute :: "template \<Rightarrow> dict \<Rightarrow> string" where
  "safe_substitute t mapping = safe_sub_pieces (safe_convert mapping) (find_matches (template t))"

section \<open>The module\<close>

subsection \<open>\<^verbatim>\<open>template_fields\<close>\<close>

text \<open>
  \<^verbatim>\<open>
  dict = {}
  dummy = None
  while not dummy:
      try:
          dummy = template.substitute(dict)
      except KeyError as inst:
          dict[inst.args[0]] = None
  return list(dict)
  \<close>
  The loop need not end, so it is a partial function: \<open>None\<close> is "does not return".
  \<^verbatim>\<open>not dummy\<close> holds for \<^verbatim>\<open>None\<close> and for the empty string.
\<close>

definition truthy :: "string option \<Rightarrow> bool" where
  "truthy dummy = (case dummy of None \<Rightarrow> False | Some s \<Rightarrow> s \<noteq> [])"

partial_function (option) template_fields_loop ::
    "template \<Rightarrow> dict \<Rightarrow> string option \<Rightarrow> (error + dict) option" where
  "template_fields_loop t d dummy =
     (if truthy dummy then Some (Inr d)
      else (case substitute t d of
             Inr s \<Rightarrow> template_fields_loop t d (Some s)
           | Inl (KeyError k) \<Rightarrow> template_fields_loop t (dict_setitem d k PyNone) dummy
           | Inl e \<Rightarrow> Some (Inl e)))"

definition template_fields :: "template \<Rightarrow> (error + string list) option" where
  "template_fields t =
     (case template_fields_loop t [] None of
        None \<Rightarrow> None
      | Some (Inl e) \<Rightarrow> Some (Inl e)
      | Some (Inr d) \<Rightarrow> Some (Inr (dict_keys d)))"

subsection \<open>\<^verbatim>\<open>set_edit_template\<close>\<close>

text \<open>The argument is a string or an already built \<^verbatim>\<open>Template\<close>.\<close>

datatype template_arg = Str string | Tmpl template

fun as_template :: "template_arg \<Rightarrow> template" where
  "as_template (Str s) = Template s"
| "as_template (Tmpl t) = t"

definition set_edit_template :: "template_arg \<Rightarrow> state \<Rightarrow> unit result" where
  "set_edit_template template_string st =
     (let t = as_template template_string in
      case template_fields t of
        None \<Rightarrow> None
      | Some (Inl e) \<Rightarrow> Some (Inl e, st)
      | Some (Inr fields') \<Rightarrow>
          if \<not> (set fields' \<subseteq> {''file'', ''line''} \<and> ''file'' \<in> set fields')
          then Some (Inl (ValueError OnlyFileAndLine), st)
          else Some (Inr (), st\<lparr>edit_template := Some t\<rparr>))"

subsection \<open>\<^verbatim>\<open>set_editor\<close>\<close>

definition template_defaults :: "(string \<times> template) list" where
  "template_defaults =
     [(''vi'', Template ''vi -c ${line} ${file}''),
      (''vim'', Template ''vim -c ${line} ${file}''),
      (''emacs'', Template ''emacs ${opts} +${line} ${file}''),
      (''nedit-nc'', Template ''nedit-nc -line ${line} ${file}''),
      (''nedit-client'', Template ''nedit-client -line ${line} ${file}''),
      (''ncl'', Template ''ncl -line ${line} ${file}''),
      (''gedit'', Template ''gedit +${line} ${file} &''),
      (''kate'', Template ''kate -u --line +${line} ${file} &'')]"

definition set_editor :: "string \<Rightarrow> string \<Rightarrow> state \<Rightarrow> unit result" where
  "set_editor editor_name opts st =
     (case map_of template_defaults editor_name of
        Some t \<Rightarrow>
          set_edit_template (Tmpl (Template (safe_substitute t [(''opts'', PyStr opts)]))) st
      | None \<Rightarrow> Some (Inl (ValueError EditorNotKnown), st))"

subsection \<open>String operations of Python\<close>

fun startswith :: "string \<Rightarrow> string \<Rightarrow> bool" where
  "startswith s [] = True"
| "startswith [] (p # ps) = False"
| "startswith (c # s) (p # ps) = (c = p \<and> startswith s ps)"

definition endswith :: "string \<Rightarrow> string \<Rightarrow> bool" where
  "endswith s suffix = startswith (rev s) (rev suffix)"

text \<open>\<^verbatim>\<open>s.find(sub)\<close>: the least index where \<open>sub\<close> occurs in \<open>s\<close>, or \<open>-1\<close>.\<close>

fun find_from :: "nat \<Rightarrow> string \<Rightarrow> string \<Rightarrow> int" where
  "find_from i [] sub = (if sub = [] then int i else - 1)"
| "find_from i (c # s) sub =
     (if startswith (c # s) sub then int i else find_from (Suc i) s sub)"

definition find :: "string \<Rightarrow> string \<Rightarrow> int" where
  "find s sub = find_from 0 s sub"

text \<open>
  \<^verbatim>\<open>s.split()\<close> splits at runs of whitespace and returns no empty word.  Of the characters
  below 256, \<^verbatim>\<open>str.isspace\<close> holds for the codes 9 to 13, 28 to 32, 133 and 160.
\<close>

definition isspace :: "char \<Rightarrow> bool" where
  "isspace c = ((of_char c :: nat) \<in> {9, 10, 11, 12, 13, 28, 29, 30, 31, 32, 133, 160})"

fun split_from :: "string \<Rightarrow> string \<Rightarrow> string list" where
  "split_from w [] = (if w = [] then [] else [w])"
| "split_from w (c # s) =
     (if isspace c then (if w = [] then split_from [] s else w # split_from [] s)
      else split_from (w @ [c]) s)"

definition split :: "string \<Rightarrow> string list" where
  "split s = split_from [] s"

fun join :: "string \<Rightarrow> string list \<Rightarrow> string" where
  "join sep [] = []"
| "join sep [w] = w"
| "join sep (w # v # ws) = w @ sep @ join sep (v # ws)"

subsection \<open>What is known of \<^verbatim>\<open>re.sub\<close>\<close>

text \<open>
  \<^verbatim>\<open>re.sub('^' + SAGE_LIB, SAGE_SRC, filename)\<close> reads the library root as a regular
  expression and the source root as a replacement template.  The module takes \<^verbatim>\<open>re.sub\<close>
  from outside, as it takes the introspection functions; what is known of it here is its
  result on a fragment: after the anchor \<^verbatim>\<open>^\<close>, a sequence of ordinary characters, each
  matching itself, and of dots, each matching any character but the newline; a
  replacement with no backslash, which stands for itself.  Without \<^verbatim>\<open>re.MULTILINE\<close> the
  anchor matches at the start of the string only, so there is at most one match to
  replace.  Of patterns and replacements outside the fragment nothing is said.
\<close>

datatype re_atom = Lit char | AnyChar

definition re_special :: "char \<Rightarrow> bool" where
  "re_special c = (c \<in> set ''.^$*+?{}[]|()'' \<or> c = CHR 0x5C)"

text \<open>The atoms of a pattern of the fragment; \<open>None\<close> for every other pattern.\<close>

fun parse_atoms :: "string \<Rightarrow> re_atom list option" where
  "parse_atoms [] = Some []"
| "parse_atoms (c # s) =
     (if c = CHR ''.'' then map_option ((#) AnyChar) (parse_atoms s)
      else if re_special c then None
      else map_option ((#) (Lit c)) (parse_atoms s))"

text \<open>A match of the atoms at the start of the string gives the rest of the string.\<close>

fun match_atoms :: "re_atom list \<Rightarrow> string \<Rightarrow> string option" where
  "match_atoms [] s = Some s"
| "match_atoms (a # as) [] = None"
| "match_atoms (Lit c # as) (x # s) = (if x = c then match_atoms as s else None)"
| "match_atoms (AnyChar # as) (x # s) = (if x \<noteq> CHR 0x0A then match_atoms as s else None)"

text \<open>The string after the one match at its start, if there is one, is replaced.\<close>

definition sub_anchored :: "re_atom list \<Rightarrow> string \<Rightarrow> string \<Rightarrow> string" where
  "sub_anchored atoms repl s =
     (case match_atoms atoms s of None \<Rightarrow> s | Some rest \<Rightarrow> repl @ rest)"

text \<open>A function \<open>f\<close> is \<^verbatim>\<open>re.sub\<close> on the fragment.\<close>

definition re_sub_known :: "(string \<Rightarrow> string \<Rightarrow> string \<Rightarrow> error + string) \<Rightarrow> bool" where
  "re_sub_known f =
     (\<forall>root atoms repl s.
        parse_atoms root = Some atoms \<longrightarrow> CHR 0x5C \<notin> set repl \<longrightarrow>
        f (CHR ''^'' # root) repl s = Inr (sub_anchored atoms repl s))"

subsection \<open>\<^verbatim>\<open>file_and_line\<close>\<close>

text \<open>
  What the module takes from outside: the two introspection functions of
  \<^verbatim>\<open>sage.misc.sageinspect\<close>, the files that \<^verbatim>\<open>open\<close> can read (each as the list of lines
  that \<^verbatim>\<open>readline\<close> returns one after the other), \<^verbatim>\<open>re.sub\<close>, the two roots of
  \<^verbatim>\<open>sage.env\<close> and \<^verbatim>\<open>os.environ\<close>.
\<close>

record 'obj env =
  sage_getfile :: "'obj \<Rightarrow> error + string"
  sage_getsourcelines :: "'obj \<Rightarrow> error + (string list \<times> int)"
  open_file :: "string \<Rightarrow> error + string list"
  re_sub :: "string \<Rightarrow> string \<Rightarrow> string \<Rightarrow> error + string"
  SAGE_LIB :: string
  SAGE_SRC :: string
  environ :: "string \<Rightarrow> string option"

text \<open>\<^verbatim>\<open>readline\<close> returns the next line, or the empty string at the end of the file.\<close>

fun readline :: "string list \<Rightarrow> string \<times> string list" where
  "readline [] = ([], [])"
| "readline (l # ls) = (l, ls)"

text \<open>Lines 104 to 109: a preparsed file is traced back to its \<^verbatim>\<open>.sage\<close> source.\<close>

definition undo_preparse :: "'obj env \<Rightarrow> string \<Rightarrow> int \<Rightarrow> error + (string \<times> int)" where
  "undo_preparse env filename lineno =
     (if endswith filename ''.py'' then
        (case open_file env filename of
           Inl e \<Rightarrow> Inl e
         | Inr infile \<Rightarrow>
             let (l1, infile1) = readline infile;
                 (l2, infile2) = readline infile1
             in if find l2 ''*autogenerated*'' \<ge> 0
                then Inr (take (length filename - 3) filename @ ''.sage'', lineno - 3)
                else Inr (filename, lineno))
      else Inr (filename, lineno))"

text \<open>Lines 111 to 113.\<close>

definition path_rewrite :: "'obj env \<Rightarrow> string \<Rightarrow> error + string" where
  "path_rewrite env filename =
     (let runpathpattern = CHR ''^'' # SAGE_LIB env;
          develbranch = SAGE_SRC env
      in re_sub env runpathpattern develbranch filename)"

definition file_and_line :: "'obj env \<Rightarrow> 'obj \<Rightarrow> error + (string \<times> int)" where
  "file_and_line env obj =
     (case sage_getfile env obj of
        Inl e \<Rightarrow> Inl e
      | Inr filename \<Rightarrow>
     (case sage_getsourcelines env obj of
        Inl e \<Rightarrow> Inl e
      | Inr (src, n) \<Rightarrow>
     (case undo_preparse env filename (n - 1) of
        Inl e \<Rightarrow> Inl e
      | Inr (filename1, lineno) \<Rightarrow>
     (case path_rewrite env filename1 of
        Inl e \<Rightarrow> Inl e
      | Inr filename2 \<Rightarrow> Inr (filename2, lineno + 1)))))"

subsection \<open>\<^verbatim>\<open>edit\<close>\<close>

text \<open>Lines 256 to 264: the editor named by the environment variable \<^verbatim>\<open>EDITOR\<close>.\<close>

fun caught :: "error \<Rightarrow> bool" where
  "caught (ValueError _) = True"
| "caught (KeyError _) = True"
| "caught IndexError = True"
| "caught _ = False"

definition editor_from_environ :: "'obj env \<Rightarrow> state \<Rightarrow> unit result" where
  "editor_from_environ env st =
     (case environ env ''EDITOR'' of
        None \<Rightarrow> Some (Inl (ValueError UseSetEditTemplate), st)
      | Some ED \<Rightarrow>
          (case split ED of
             [] \<Rightarrow> Some (Inl (ValueError UseSetEditTemplate), st)
           | base # rest \<Rightarrow>
               (case set_editor base (join '' '' rest) st of
                  None \<Rightarrow> None
                | Some (Inl e, st') \<Rightarrow>
                    if caught e then Some (Inl (ValueError UseSetEditTemplate), st')
                    else Some (Inl e, st')
                | Some (Inr u, st') \<Rightarrow> Some (Inr (), st'))))"

text \<open>
  Lines 254 to 264.  \<^verbatim>\<open>if editor:\<close> holds for a non-empty string; \<^verbatim>\<open>not edit_template\<close>
  holds for \<^verbatim>\<open>None\<close> only, a \<^verbatim>\<open>Template\<close> object being true.
\<close>

definition choose_template :: "'obj env \<Rightarrow> string option \<Rightarrow> state \<Rightarrow> unit result" where
  "choose_template env editor st =
     (if truthy editor then set_editor (case editor of None \<Rightarrow> [] | Some e \<Rightarrow> e) [] st
      else if edit_template st = None then editor_from_environ env st
      else Some (Inr (), st))"

text \<open>Lines 272 to 275.  \<^verbatim>\<open>cmd[-1]\<close> raises \<^verbatim>\<open>IndexError\<close> on the empty string.\<close>

definition last_char :: "string \<Rightarrow> error + char" where
  "last_char cmd = (if cmd = [] then Inl IndexError else Inr (last cmd))"

definition background :: "bool option \<Rightarrow> string \<Rightarrow> error + string" where
  "background bg cmd =
     (case (if bg = Some True then
              (case last_char cmd of
                 Inl e \<Rightarrow> Inl e
               | Inr c \<Rightarrow> if c \<noteq> CHR ''&'' then Inr (cmd @ ''&'') else Inr cmd)
            else Inr cmd) of
        Inl e \<Rightarrow> Inl e
      | Inr cmd1 \<Rightarrow>
          if bg = Some False then
            (case last_char cmd1 of
               Inl e \<Rightarrow> Inl e
             | Inr c \<Rightarrow> if c = CHR ''&'' then Inr (butlast cmd1) else Inr cmd1)
          else Inr cmd1)"

definition edit :: "'obj env \<Rightarrow> 'obj \<Rightarrow> string option \<Rightarrow> bool option \<Rightarrow> state \<Rightarrow> unit result" where
  "edit env obj editor bg st =
     (case choose_template env editor st of
        None \<Rightarrow> None
      | Some (Inl e, st1) \<Rightarrow> Some (Inl e, st1)
      | Some (Inr u, st1) \<Rightarrow>
     (case edit_template st1 of
        None \<Rightarrow> Some (Inl (ValueError UseSetEditTemplate), st1)
      | Some t \<Rightarrow>
     (case file_and_line env obj of
        Inl e \<Rightarrow> Some (Inl e, st1)
      | Inr (filename, lineno) \<Rightarrow>
     (case substitute t [(''line'', PyInt lineno), (''file'', PyStr filename)] of
        Inl e \<Rightarrow> Some (Inl e, st1)
      | Inr cmd \<Rightarrow>
     (case background bg cmd of
        Inl e \<Rightarrow> Some (Inl e, st1)
      | Inr cmd1 \<Rightarrow> Some (Inr (), st1\<lparr>shell := shell st1 @ [cmd1]\<rparr>))))))"

section \<open>Notions of the specification\<close>

subsection \<open>The placeholder set of a template\<close>

text \<open>
  The specification speaks of the placeholder set of a template.  Read off the template
  directly, it is the set of the names of its named and braced matches; a template is
  well-formed when no delimiter of it is ill-formed.
\<close>

fun names :: "piece list \<Rightarrow> string list" where
  "names [] = []"
| "names (Text c # ps) = names ps"
| "names (Match (Named n) # ps) = n # names ps"
| "names (Match (Braced n) # ps) = n # names ps"
| "names (Match Escaped # ps) = names ps"
| "names (Match Invalid # ps) = names ps"

fun wellformed :: "piece list \<Rightarrow> bool" where
  "wellformed [] = True"
| "wellformed (Text c # ps) = wellformed ps"
| "wellformed (Match Invalid # ps) = False"
| "wellformed (Match m # ps) = wellformed ps"

definition placeholders :: "template \<Rightarrow> string set" where
  "placeholders t = set (names (find_matches (template t)))"

definition allowed :: "template \<Rightarrow> bool" where
  "allowed t = (placeholders t \<subseteq> {''file'', ''line''} \<and> ''file'' \<in> placeholders t)"

text \<open>Every value of the dictionary prints as a non-empty string.\<close>

definition printable :: "dict \<Rightarrow> bool" where
  "printable d = (\<forall>v \<in> snd ` set d. str v \<noteq> [])"

definition the_fields :: "template \<Rightarrow> string list" where
  "the_fields t = (case template_fields t of Some (Inr fs) \<Rightarrow> fs | _ \<Rightarrow> [])"

subsection \<open>Sequences of calls\<close>

text \<open>
  A session is a sequence of calls of the three operations that touch the active
  template.  An exception ends the call that raised it, not the session; a call that
  does not return ends the session.
\<close>

datatype 'obj call =
    SetEditTemplate template_arg
  | SetEditor string string
  | Edit 'obj "string option" "bool option"

fun step :: "'obj env \<Rightarrow> 'obj call \<Rightarrow> state \<Rightarrow> unit result" where
  "step env (SetEditTemplate a) st = set_edit_template a st"
| "step env (SetEditor editor_name opts) st = set_editor editor_name opts st"
| "step env (Edit obj editor bg) st = edit env obj editor bg st"

fun run :: "'obj env \<Rightarrow> 'obj call list \<Rightarrow> state \<Rightarrow> state option" where
  "run env [] st = Some st"
| "run env (c # cs) st =
     (case step env c st of None \<Rightarrow> None | Some (r, st') \<Rightarrow> run env cs st')"

text \<open>
  The call of \<^verbatim>\<open>set_editor\<close> that \<^verbatim>\<open>edit\<close> makes itself, by name and options: with the
  editor it is given (line 255), or, with no editor and no active template, with the
  words of \<^verbatim>\<open>EDITOR\<close> (lines 258 to 262); \<open>None\<close> where it makes no such call.
\<close>

definition edit_editor_call :: "'obj env \<Rightarrow> string option \<Rightarrow> state \<Rightarrow> (string \<times> string) option" where
  "edit_editor_call env editor st =
     (if truthy editor then Some (case editor of None \<Rightarrow> [] | Some e \<Rightarrow> e, [])
      else if edit_template st = None then
        (case environ env ''EDITOR'' of
           None \<Rightarrow> None
         | Some ED \<Rightarrow>
             (case split ED of [] \<Rightarrow> None | base # rest \<Rightarrow> Some (base, join '' '' rest)))
      else None)"

subsection \<open>Example environments\<close>

text \<open>
  For the examples, a function that is \<^verbatim>\<open>re.sub\<close> on the fragment (\<open>re_sub_known\<close>
  holds of it); every example calls it there.  Elsewhere it raises, which binds no
  theorem about all environments: those assume \<open>re_sub_known\<close> at most.
\<close>

definition fragment_re_sub :: "string \<Rightarrow> string \<Rightarrow> string \<Rightarrow> error + string" where
  "fragment_re_sub pattern repl s =
     (case pattern of
        [] \<Rightarrow> Inl (EnvError ''outside the fragment'')
      | c # root \<Rightarrow>
          if c \<noteq> CHR ''^'' \<or> CHR 0x5C \<in> set repl then Inl (EnvError ''outside the fragment'')
          else (case parse_atoms root of
            None \<Rightarrow> Inl (EnvError ''outside the fragment'')
          | Some atoms \<Rightarrow> Inr (sub_anchored atoms repl s)))"

text \<open>
  \<open>preparsed_env\<close>: the object comes from \<^verbatim>\<open>/lib/sage/all.py\<close>, a preparsed file, and starts
  at its line 10.  \<open>root_is_file_env\<close>: the same, with the name of that file's source as
  the library root.  \<open>dotted_root_env\<close>: a library root with a dot in it.
  \<open>empty_name_env\<close>: the introspection resolves the object to the empty file name and to
  line 1.  \<open>no_source_env\<close>: the introspection raises.
\<close>

definition preparsed_env :: "unit env" where
  "preparsed_env =
     \<lparr>sage_getfile = (\<lambda>obj. Inr ''/lib/sage/all.py''),
      sage_getsourcelines = (\<lambda>obj. Inr ([], 10)),
      open_file = (\<lambda>f. Inr [''# -*- coding: utf-8 -*-'' @ [CHR 0x0A],
                                ''# This file was *autogenerated* from all.sage'' @ [CHR 0x0A]]),
      re_sub = fragment_re_sub,
      SAGE_LIB = ''/lib'',
      SAGE_SRC = ''/src'',
      environ = (\<lambda>v. None)\<rparr>"

definition root_is_file_env :: "unit env" where
  "root_is_file_env = preparsed_env\<lparr>SAGE_LIB := ''/lib/sage/all.sage''\<rparr>"

definition dotted_root_env :: "unit env" where
  "dotted_root_env =
     preparsed_env\<lparr>SAGE_LIB := ''/usr/lib/python3.10/site-packages''\<rparr>"

definition empty_name_env :: "unit env" where
  "empty_name_env =
     \<lparr>sage_getfile = (\<lambda>obj. Inr []),
      sage_getsourcelines = (\<lambda>obj. Inr ([], 1)),
      open_file = (\<lambda>f. Inl (EnvError ''FileNotFoundError'')),
      re_sub = fragment_re_sub,
      SAGE_LIB = ''/lib'',
      SAGE_SRC = ''/src'',
      environ = (\<lambda>v. None)\<rparr>"

definition no_source_env :: "unit env" where
  "no_source_env =
     \<lparr>sage_getfile = (\<lambda>obj. Inl (EnvError ''TypeError'')),
      sage_getsourcelines = (\<lambda>obj. Inl (EnvError ''TypeError'')),
      open_file = (\<lambda>f. Inl (EnvError ''FileNotFoundError'')),
      re_sub = fragment_re_sub,
      SAGE_LIB = ''/lib'',
      SAGE_SRC = ''/src'',
      environ = (\<lambda>v. None)\<rparr>"

definition unset :: state where
  "unset = \<lparr>edit_template = None, shell = []\<rparr>"

section \<open>Substitution and the fields of a template\<close>

lemma find_matches_Nil_iff: "find_matches s = [] \<longleftrightarrow> s = []"
  by (cases s) (auto simp: find_matches.simps split: list.splits)

lemma sub_pieces_KeyError:
  "sub_pieces (convert d) ps = Inl (KeyError k) \<Longrightarrow> k \<in> set (names ps) \<and> k \<notin> fst ` set d"
proof (induction ps rule: names.induct)
  case 1
  then show ?case by simp
next
  case (2 c ps)
  then show ?case by (auto split: sum.splits)
next
  case (3 n ps)
  then show ?case by (auto split: sum.splits option.splits simp: map_of_eq_None_iff)
next
  case (4 n ps)
  then show ?case by (auto split: sum.splits option.splits simp: map_of_eq_None_iff)
next
  case (5 ps)
  then show ?case by (auto split: sum.splits)
next
  case (6 ps)
  then show ?case by simp
qed

lemma sub_pieces_error:
  "sub_pieces (convert d) ps = Inl e \<Longrightarrow>
     (\<exists>k. e = KeyError k) \<or> (e = ValueError InvalidPlaceholder \<and> \<not> wellformed ps)"
proof (induction ps rule: names.induct)
  case 1
  then show ?case by simp
next
  case (2 c ps)
  then show ?case by (auto split: sum.splits)
next
  case (3 n ps)
  then show ?case by (auto split: sum.splits option.splits)
next
  case (4 n ps)
  then show ?case by (auto split: sum.splits option.splits)
next
  case (5 ps)
  then show ?case by (auto split: sum.splits)
next
  case (6 ps)
  then show ?case by simp
qed

lemma sub_pieces_Inr:
  "sub_pieces (convert d) ps = Inr s \<Longrightarrow> wellformed ps \<and> set (names ps) \<subseteq> fst ` set d"
proof (induction ps arbitrary: s rule: names.induct)
  case 1
  then show ?case by simp
next
  case (2 c ps)
  then show ?case by (auto split: sum.splits)
next
  case (3 n ps)
  then show ?case by (auto split: sum.splits option.splits dest: map_of_SomeD intro: rev_image_eqI)
next
  case (4 n ps)
  then show ?case by (auto split: sum.splits option.splits dest: map_of_SomeD intro: rev_image_eqI)
next
  case (5 ps)
  then show ?case by (auto split: sum.splits)
next
  case (6 ps)
  then show ?case by simp
qed

lemma sub_pieces_nonempty:
  "sub_pieces (convert d) ps = Inr s \<Longrightarrow> printable d \<Longrightarrow> ps \<noteq> [] \<Longrightarrow> s \<noteq> []"
proof (cases ps)
  case Nil
  assume "ps \<noteq> []"
  with Nil show ?thesis by simp
next
  case (Cons p ps')
  assume h: "sub_pieces (convert d) ps = Inr s" and pr: "printable d"
  show ?thesis
  proof (cases p)
    case (Text c)
    with Cons h show ?thesis by (auto split: sum.splits)
  next
    case (Match m)
    show ?thesis
    proof (cases m)
      case Escaped
      with Match Cons h show ?thesis by (auto split: sum.splits)
    next
      case (Named n)
      with Match Cons h pr show ?thesis
        by (auto split: sum.splits option.splits simp: printable_def dest!: map_of_SomeD)
    next
      case (Braced n)
      with Match Cons h pr show ?thesis
        by (auto split: sum.splits option.splits simp: printable_def dest!: map_of_SomeD)
    next
      case Invalid
      with Match Cons h show ?thesis by simp
    qed
  qed
qed

lemma fst_dict_setitem: "fst ` set (dict_setitem d k v) = insert k (fst ` set d)"
  by (induction d) auto

lemma snd_dict_setitem: "snd ` set (dict_setitem d k v) \<subseteq> insert v (snd ` set d)"
  by (induction d) auto

lemma printable_setitem: "printable d \<Longrightarrow> printable (dict_setitem d k PyNone)"
  by (induction d) (auto simp: printable_def)

lemma loop_truthy: "truthy dummy \<Longrightarrow> template_fields_loop t d dummy = Some (Inr d)"
  by (subst template_fields_loop.simps) simp

lemma loop_falsy:
  "\<not> truthy dummy \<Longrightarrow> template_fields_loop t d dummy =
     (case substitute t d of
        Inr s \<Rightarrow> template_fields_loop t d (Some s)
      | Inl (KeyError k) \<Rightarrow> template_fields_loop t (dict_setitem d k PyNone) dummy
      | Inl e \<Rightarrow> Some (Inl e))"
  by (subst template_fields_loop.simps) simp

lemma loop_returns:
  assumes "template t \<noteq> []" and "printable d"
  shows "(\<not> wellformed (find_matches (template t)) \<longrightarrow>
            template_fields_loop t d None = Some (Inl (ValueError InvalidPlaceholder))) \<and>
         (wellformed (find_matches (template t)) \<longrightarrow>
            (\<exists>d'. template_fields_loop t d None = Some (Inr d') \<and>
                  fst ` set d' = fst ` set d \<union> placeholders t))"
  using assms(2)
proof (induction "card (placeholders t - fst ` set d)" arbitrary: d rule: less_induct)
  case less
  let ?ps = "find_matches (template t)"
  have ne: "?ps \<noteq> []" using assms(1) by (simp add: find_matches_Nil_iff)
  have falsy: "\<not> truthy None" by (simp add: truthy_def)
  show ?case
  proof (cases "substitute t d")
    case (Inr s)
    then have sp: "sub_pieces (convert d) ?ps = Inr s" by (simp add: substitute_def)
    from sub_pieces_nonempty [OF sp less.prems ne] have "truthy (Some s)"
      by (simp add: truthy_def)
    then have "template_fields_loop t d (Some s) = Some (Inr d)" by (rule loop_truthy)
    with Inr have "template_fields_loop t d None = Some (Inr d)"
      by (simp add: loop_falsy [OF falsy])
    moreover from sub_pieces_Inr [OF sp]
    have "wellformed ?ps" and "fst ` set d = fst ` set d \<union> placeholders t"
      by (auto simp: placeholders_def)
    ultimately show ?thesis by simp
  next
    case (Inl e)
    then have sp: "sub_pieces (convert d) ?ps = Inl e" by (simp add: substitute_def)
    from sub_pieces_error [OF sp] show ?thesis
    proof
      assume "\<exists>k. e = KeyError k"
      then obtain k where e: "e = KeyError k" ..
      from sub_pieces_KeyError [OF sp [unfolded e]]
      have k: "k \<in> placeholders t" "k \<notin> fst ` set d" by (auto simp: placeholders_def)
      let ?d = "dict_setitem d k PyNone"
      have fin: "finite (placeholders t)" by (simp add: placeholders_def)
      have "placeholders t - fst ` set ?d \<subset> placeholders t - fst ` set d"
        using k by (auto simp: fst_dict_setitem)
      then have "card (placeholders t - fst ` set ?d) < card (placeholders t - fst ` set d)"
        using fin by (intro psubset_card_mono) auto
      note ih = less.hyps [OF this printable_setitem [OF less.prems]]
      have step: "template_fields_loop t d None = template_fields_loop t ?d None"
        using Inl e by (simp add: loop_falsy [OF falsy])
      have keys: "fst ` set ?d \<union> placeholders t = fst ` set d \<union> placeholders t"
        using k by (auto simp: fst_dict_setitem)
      show ?thesis using ih unfolding step keys .
    next
      assume a: "e = ValueError InvalidPlaceholder \<and> \<not> wellformed ?ps"
      then have "template_fields_loop t d None = Some (Inl e)"
        using Inl by (simp add: loop_falsy [OF falsy])
      with a show ?thesis by simp
    qed
  qed
qed

lemma loop_empty_diverges:
  assumes "template_fields_loop t d dummy = Some y"
  shows "template t \<noteq> [] \<or> truthy dummy"
proof (rule template_fields_loop.raw_induct
    [where P = "\<lambda>t d dummy y. template t \<noteq> [] \<or> truthy dummy", OF _ assms], goal_cases)
  case (1 lp t d dummy y)
  show ?case
  proof (rule ccontr)
    assume "\<not> (template t \<noteq> [] \<or> truthy dummy)"
    then have e: "template t = []" and f: "\<not> truthy dummy" by auto
    have "substitute t d = Inr []" using e by (simp add: substitute_def find_matches.simps)
    with 1(2) f have "lp t d (Some []) = Some y" by simp
    from 1(1) [OF this] e show False by (simp add: truthy_def)
  qed
qed


lemma template_fields_empty: "template t = [] \<Longrightarrow> template_fields t = None"
proof -
  assume e: "template t = []"
  have "template_fields_loop t [] None = None"
  proof (cases "template_fields_loop t [] None")
    case None
    then show ?thesis .
  next
    case (Some y)
    from loop_empty_diverges [OF this] e show ?thesis by (simp add: truthy_def)
  qed
  then show ?thesis by (simp add: template_fields_def)
qed

lemma template_fields_nonempty:
  assumes "template t \<noteq> []"
  shows "template_fields t =
           (if wellformed (find_matches (template t))
            then Some (Inr (the_fields t))
            else Some (Inl (ValueError InvalidPlaceholder)))"
    and "wellformed (find_matches (template t)) \<Longrightarrow> set (the_fields t) = placeholders t"
proof -
  have p: "printable []" by (simp add: printable_def)
  note lr = loop_returns [OF assms p]
  show "template_fields t =
           (if wellformed (find_matches (template t))
            then Some (Inr (the_fields t))
            else Some (Inl (ValueError InvalidPlaceholder)))"
  proof (cases "wellformed (find_matches (template t))")
    case True
    with lr obtain d' where "template_fields_loop t [] None = Some (Inr d')" by auto
    with True show ?thesis by (simp add: template_fields_def the_fields_def)
  next
    case False
    with lr show ?thesis by (simp add: template_fields_def)
  qed
  show "set (the_fields t) = placeholders t" if "wellformed (find_matches (template t))"
  proof -
    from lr that obtain d' where "template_fields_loop t [] None = Some (Inr d')"
      and "fst ` set d' = placeholders t" by auto
    then show ?thesis by (simp add: template_fields_def the_fields_def dict_keys_def)
  qed
qed

lemma set_edit_template_empty:
  "template (as_template a) = [] \<Longrightarrow> set_edit_template a st = None"
  by (simp add: set_edit_template_def template_fields_empty)

lemma set_edit_template_nonempty:
  assumes "template (as_template a) \<noteq> []"
  shows "set_edit_template a st =
     (if \<not> wellformed (find_matches (template (as_template a)))
      then Some (Inl (ValueError InvalidPlaceholder), st)
      else if allowed (as_template a)
      then Some (Inr (), st\<lparr>edit_template := Some (as_template a)\<rparr>)
      else Some (Inl (ValueError OnlyFileAndLine), st))"
  using template_fields_nonempty [OF assms]
  by (simp add: set_edit_template_def allowed_def)

section \<open>Strings, the path rewrite and the preparsed file\<close>

lemma startswith_iff: "startswith s p \<longleftrightarrow> (\<exists>r. s = p @ r)"
  by (induction s p rule: startswith.induct) auto

lemma endswith_append: "endswith (stem @ suffix) suffix"
  by (simp add: endswith_def startswith_iff)

lemma find_from_occurs: "0 \<le> find_from i (a @ sub @ b) sub"
proof (induction a arbitrary: i)
  case Nil
  show ?case
  proof (cases "sub @ b")
    case Nil
    then show ?thesis by simp
  next
    case (Cons c s)
    have "startswith (sub @ b) sub" by (simp add: startswith_iff)
    with Cons show ?thesis by simp
  qed
next
  case (Cons x a)
  show ?case using Cons.IH [of "Suc i"] by simp
qed

lemma find_occurs: "0 \<le> find (a @ sub @ b) sub"
  by (simp add: find_def find_from_occurs)

lemma length_parse_atoms: "parse_atoms p = Some atoms \<Longrightarrow> length atoms = length p"
  by (induction p arbitrary: atoms) (auto split: if_splits)

lemma match_atoms_drop:
  "match_atoms atoms s = Some rest \<Longrightarrow> length atoms \<le> length s \<and> rest = drop (length atoms) s"
  by (induction atoms s rule: match_atoms.induct) (auto split: if_splits)

lemma parse_atoms_literal:
  "\<forall>c \<in> set p. \<not> re_special c \<Longrightarrow> parse_atoms p = Some (map Lit p)"
  by (induction p) (auto simp: re_special_def)

lemma match_atoms_literal:
  "match_atoms (map Lit p) s = (if startswith s p then Some (drop (length p) s) else None)"
  by (induction s p rule: startswith.induct) auto

lemma sub_anchored_shape:
  assumes "parse_atoms root = Some atoms"
  shows "sub_anchored atoms repl s = s \<or>
         (length root \<le> length s \<and> sub_anchored atoms repl s = repl @ drop (length root) s)"
proof (cases "match_atoms atoms s")
  case None
  then show ?thesis by (simp add: sub_anchored_def)
next
  case (Some rest)
  from match_atoms_drop [OF Some] length_parse_atoms [OF assms] Some
  show ?thesis by (simp add: sub_anchored_def)
qed

lemma path_rewrite_known:
  assumes "re_sub_known (re_sub env)" and "parse_atoms (SAGE_LIB env) = Some atoms"
    and "CHR 0x5C \<notin> set (SAGE_SRC env)"
  shows "path_rewrite env filename = Inr (sub_anchored atoms (SAGE_SRC env) filename)"
  using assms by (simp add: path_rewrite_def re_sub_known_def)

text \<open>
  Where the library root has no character that is special in a regular expression and
  the source root no backslash, the rewrite replaces the root as a prefix and nothing
  else.
\<close>

lemma path_rewrite_literal:
  assumes "re_sub_known (re_sub env)" and "\<forall>c \<in> set (SAGE_LIB env). \<not> re_special c"
    and "CHR 0x5C \<notin> set (SAGE_SRC env)"
  shows "path_rewrite env filename =
           Inr (if startswith filename (SAGE_LIB env)
                then SAGE_SRC env @ drop (length (SAGE_LIB env)) filename else filename)"
  using path_rewrite_known [OF assms(1) parse_atoms_literal [OF assms(2)] assms(3)]
  by (simp add: sub_anchored_def match_atoms_literal)

lemma fragment_re_sub_known: "re_sub_known fragment_re_sub"
  by (simp add: re_sub_known_def fragment_re_sub_def)

lemmas eval_path_rewrite =
  path_rewrite_def fragment_re_sub_def sub_anchored_def re_special_def

lemma undo_preparse_generated:
  assumes "open_file env (stem @ ''.py'') = Inr (l1 # (a @ ''*autogenerated*'' @ b) # ls)"
  shows "undo_preparse env (stem @ ''.py'') lineno = Inr (stem @ ''.sage'', lineno - 3)"
proof -
  have "endswith (stem @ ''.py'') ''.py''" by (rule endswith_append)
  moreover have "0 \<le> find (a @ ''*autogenerated*'' @ b) ''*autogenerated*''"
    by (rule find_occurs)
  ultimately show ?thesis using assms by (simp add: undo_preparse_def)
qed

section \<open>Evaluating templates\<close>

lemmas eval_template =
  find_matches.simps idstart_def idchar_def braced_at_def placeholders_def allowed_def

lemma placeholders_empty: "template t = [] \<Longrightarrow> placeholders t = {}"
  by (simp add: placeholders_def find_matches.simps)

section \<open>What a call does to the active template\<close>

lemma set_edit_template_cases:
  assumes "set_edit_template a st = Some (r, st')"
  shows "(r = Inr () \<and> st' = st\<lparr>edit_template := Some (as_template a)\<rparr> \<and>
            template_fields (as_template a) \<noteq> None) \<or>
         ((\<exists>e. r = Inl e) \<and> st' = st)"
  using assms
  by (auto simp: set_edit_template_def Let_def split: option.splits sum.splits if_splits)

lemma set_editor_cases:
  assumes "set_editor editor_name opts st = Some (r, st')"
  shows "(r = Inr () \<and>
            (\<exists>t. map_of template_defaults editor_name = Some t \<and>
                 st' = st\<lparr>edit_template :=
                          Some (Template (safe_substitute t [(''opts'', PyStr opts)]))\<rparr>)) \<or>
         ((\<exists>e. r = Inl e) \<and> st' = st)"
proof (cases "map_of template_defaults editor_name")
  case None
  with assms show ?thesis by (auto simp: set_editor_def)
next
  case (Some t)
  with assms have "set_edit_template
      (Tmpl (Template (safe_substitute t [(''opts'', PyStr opts)]))) st = Some (r, st')"
    by (simp add: set_editor_def)
  from set_edit_template_cases [OF this] Some show ?thesis by auto
qed

lemma editor_from_environ_cases:
  assumes "editor_from_environ env st = Some (r, st')"
  shows "st' = st \<or> (r = Inr () \<and> (\<exists>n opts. set_editor n opts st = Some (Inr (), st')))"
proof (cases "environ env ''EDITOR''")
  case None
  with assms show ?thesis by (simp add: editor_from_environ_def)
next
  case (Some ED)
  show ?thesis
  proof (cases "split ED")
    case Nil
    with Some assms show ?thesis by (simp add: editor_from_environ_def)
  next
    case (Cons base rest)
    show ?thesis
    proof (cases "set_editor base (join '' '' rest) st")
      case None
      with Some Cons assms show ?thesis by (simp add: editor_from_environ_def)
    next
      case inner: (Some p)
      obtain r1 st1 where p: "p = (r1, st1)" by (cases p)
      from set_editor_cases [OF inner [unfolded p]] show ?thesis
      proof
        assume "r1 = Inr () \<and>
            (\<exists>t. map_of template_defaults base = Some t \<and>
                 st1 = st\<lparr>edit_template :=
                          Some (Template (safe_substitute t [(''opts'', PyStr (join '' '' rest))]))\<rparr>)"
        then have r1: "r1 = Inr ()" ..
        with Some Cons inner p assms have "r = Inr ()" "st' = st1"
          by (simp_all add: editor_from_environ_def)
        with inner p r1 show ?thesis by blast
      next
        assume "(\<exists>e. r1 = Inl e) \<and> st1 = st"
        with Some Cons inner p assms have "st' = st"
          by (auto simp: editor_from_environ_def split: if_splits)
        then show ?thesis ..
      qed
    qed
  qed
qed

lemma choose_template_cases:
  assumes "choose_template env editor st = Some (r, st')"
  shows "st' = st \<or> (r = Inr () \<and> (\<exists>n opts. set_editor n opts st = Some (Inr (), st')))"
proof (cases "truthy editor")
  case True
  with assms have s: "set_editor (case editor of None \<Rightarrow> [] | Some e \<Rightarrow> e) [] st = Some (r, st')"
    by (simp add: choose_template_def)
  from set_editor_cases [OF s] s show ?thesis by blast
next
  case False
  show ?thesis
  proof (cases "edit_template st = None")
    case True
    with False assms have "editor_from_environ env st = Some (r, st')"
      by (simp add: choose_template_def)
    then show ?thesis by (rule editor_from_environ_cases)
  next
    case nn: False
    with False assms show ?thesis by (simp add: choose_template_def)
  qed
qed

lemma edit_cases:
  assumes "edit env obj editor bg st = Some (r, st')"
  shows "\<exists>r1 st1. choose_template env editor st = Some (r1, st1) \<and>
           edit_template st' = edit_template st1"
proof (cases "choose_template env editor st")
  case None
  with assms show ?thesis by (simp add: edit_def)
next
  case (Some p)
  obtain r1 st1 where p: "p = (r1, st1)" by (cases p)
  from assms Some p have "edit_template st' = edit_template st1"
    by (auto simp: edit_def split: sum.splits option.splits prod.splits)
  with Some p show ?thesis by simp
qed

lemma edit_template_change:
  assumes "edit env obj editor bg st = Some (r, st')"
  shows "edit_template st' = edit_template st \<or>
         (\<exists>n opts st1. set_editor n opts st = Some (Inr (), st1) \<and>
            edit_template st' = edit_template st1)"
proof -
  from edit_cases [OF assms] obtain r1 st1 where
    c: "choose_template env editor st = Some (r1, st1)" and
    e: "edit_template st' = edit_template st1" by blast
  from choose_template_cases [OF c] e show ?thesis by auto
qed

lemma editor_from_environ_own_call:
  assumes "editor_from_environ env st = Some (r, st')"
  shows "case (case environ env ''EDITOR'' of
                 None \<Rightarrow> None
               | Some ED \<Rightarrow>
                   (case split ED of [] \<Rightarrow> None | base # rest \<Rightarrow> Some (base, join '' '' rest))) of
           None \<Rightarrow> st' = st
         | Some (n, opts) \<Rightarrow> \<exists>r1. set_editor n opts st = Some (r1, st')"
proof (cases "environ env ''EDITOR''")
  case None
  with assms show ?thesis by (simp add: editor_from_environ_def)
next
  case (Some ED)
  show ?thesis
  proof (cases "split ED")
    case Nil
    with Some assms show ?thesis by (simp add: editor_from_environ_def)
  next
    case (Cons base rest)
    show ?thesis
    proof (cases "set_editor base (join '' '' rest) st")
      case None
      with Some Cons assms show ?thesis by (simp add: editor_from_environ_def)
    next
      case inner: (Some p)
      obtain r1 st1 where p: "p = (r1, st1)" by (cases p)
      from assms Some Cons inner p have "st' = st1"
        by (cases r1) (auto simp: editor_from_environ_def split: if_splits)
      with Some Cons inner p show ?thesis by simp
    qed
  qed
qed

lemma edit_own_call:
  assumes "edit env obj editor bg st = Some (r, st')"
  shows "case edit_editor_call env editor st of
           None \<Rightarrow> edit_template st' = edit_template st
         | Some (n, opts) \<Rightarrow>
             \<exists>r1 st1. set_editor n opts st = Some (r1, st1) \<and>
               edit_template st' = edit_template st1"
proof -
  from edit_cases [OF assms] obtain r1 st1 where
    c: "choose_template env editor st = Some (r1, st1)" and
    e: "edit_template st' = edit_template st1" by blast
  show ?thesis
  proof (cases "truthy editor")
    case True
    with c e show ?thesis by (simp add: choose_template_def edit_editor_call_def)
  next
    case False
    show ?thesis
    proof (cases "edit_template st = None")
      case True
      with False c have "editor_from_environ env st = Some (r1, st1)"
        by (simp add: choose_template_def)
      from editor_from_environ_own_call [OF this] False True e show ?thesis
        by (auto simp: edit_editor_call_def split: option.splits list.splits)
    next
      case nn: False
      with False c have "st1 = st" by (simp add: choose_template_def)
      with nn False e show ?thesis by (auto simp: edit_editor_call_def)
    qed
  qed
qed

lemma edit_template_change_own_call:
  assumes "edit env obj editor bg st = Some (r, st')"
    and "edit_template st' \<noteq> edit_template st"
  shows "\<exists>n opts st1. edit_editor_call env editor st = Some (n, opts) \<and>
           set_editor n opts st = Some (Inr (), st1) \<and> edit_template st' = edit_template st1"
proof (cases "edit_editor_call env editor st")
  case None
  with edit_own_call [OF assms(1)] assms(2) show ?thesis by simp
next
  case (Some p)
  obtain n opts where p: "p = (n, opts)" by (cases p)
  from edit_own_call [OF assms(1)] Some p obtain r1 st1 where
    s: "set_editor n opts st = Some (r1, st1)" and e: "edit_template st' = edit_template st1"
    by auto
  from set_editor_cases [OF s] e assms(2) have "r1 = Inr ()" by auto
  with s e Some p show ?thesis by blast
qed

lemma step_keeps_set:
  assumes "step env c st = Some (r, st')" and "edit_template st \<noteq> None"
  shows "edit_template st' \<noteq> None"
proof (cases c)
  case (SetEditTemplate a)
  with assms(1) have "set_edit_template a st = Some (r, st')" by simp
  from set_edit_template_cases [OF this] assms(2) show ?thesis by auto
next
  case (SetEditor n opts)
  with assms(1) have "set_editor n opts st = Some (r, st')" by simp
  from set_editor_cases [OF this] assms(2) show ?thesis by auto
next
  case (Edit obj editor bg)
  with assms(1) have "edit env obj editor bg st = Some (r, st')" by simp
  from edit_template_change [OF this] show ?thesis
  proof
    assume "edit_template st' = edit_template st"
    with assms(2) show ?thesis by simp
  next
    assume "\<exists>n opts st1. set_editor n opts st = Some (Inr (), st1) \<and>
            edit_template st' = edit_template st1"
    then obtain n opts st1 where s: "set_editor n opts st = Some (Inr (), st1)"
      and e: "edit_template st' = edit_template st1" by blast
    from set_editor_cases [OF s] e show ?thesis by auto
  qed
qed

lemma run_keeps_set:
  "run env cs st = Some st' \<Longrightarrow> edit_template st \<noteq> None \<Longrightarrow> edit_template st' \<noteq> None"
proof (induction cs arbitrary: st)
  case Nil
  then show ?case by simp
next
  case (Cons c cs)
  from Cons.prems(1) obtain r st1 where s: "step env c st = Some (r, st1)"
    and rest: "run env cs st1 = Some st'"
    by (auto split: option.splits)
  from step_keeps_set [OF s Cons.prems(2)] have "edit_template st1 \<noteq> None" .
  from Cons.IH [OF rest this] show ?case .
qed

lemma set_editor_vi:
  "set_editor ''vi'' [] st = Some (Inr (), st\<lparr>edit_template := Some (Template ''vi -c ${line} ${file}'')\<rparr>)"
proof -
  have s: "safe_substitute (Template ''vi -c ${line} ${file}'') [(''opts'', PyStr [])] =
             ''vi -c ${line} ${file}''"
    by (simp add: safe_substitute_def eval_template)
  have "set_edit_template (Tmpl (Template ''vi -c ${line} ${file}'')) st =
          Some (Inr (), st\<lparr>edit_template := Some (Template ''vi -c ${line} ${file}'')\<rparr>)"
    by (subst set_edit_template_nonempty) (simp_all add: eval_template)
  then show ?thesis by (simp add: set_editor_def template_defaults_def s)
qed

text \<open>Every call returns or raises, but \<^verbatim>\<open>set_edit_template\<close> on the empty template.\<close>

lemma safe_substitute_default_nonempty:
  assumes "map_of template_defaults editor_name = Some t"
  shows "safe_substitute t m \<noteq> []"
proof -
  from assms have "(editor_name, t) \<in> set template_defaults" by (rule map_of_SomeD)
  then have "\<exists>c s. template t = c # s \<and> c \<noteq> CHR ''$''"
    by (auto simp: template_defaults_def)
  then obtain c s where "template t = c # s" and "c \<noteq> CHR ''$''" by blast
  then have "find_matches (template t) = Text c # find_matches s"
    by (simp add: find_matches.simps)
  then show ?thesis by (simp add: safe_substitute_def)
qed

lemma set_edit_template_returns:
  "template (as_template a) \<noteq> [] \<Longrightarrow> \<exists>r st'. set_edit_template a st = Some (r, st')"
  by (simp add: set_edit_template_nonempty)

lemma set_editor_returns: "\<exists>r st'. set_editor editor_name opts st = Some (r, st')"
proof (cases "map_of template_defaults editor_name")
  case None
  then show ?thesis by (simp add: set_editor_def)
next
  case (Some t)
  let ?a = "Tmpl (Template (safe_substitute t [(''opts'', PyStr opts)]))"
  have "template (as_template ?a) \<noteq> []"
    using safe_substitute_default_nonempty [OF Some] by simp
  from set_edit_template_returns [OF this] Some show ?thesis by (simp add: set_editor_def)
qed

lemma editor_from_environ_returns: "\<exists>r st'. editor_from_environ env st = Some (r, st')"
proof (cases "environ env ''EDITOR''")
  case None
  then show ?thesis by (simp add: editor_from_environ_def)
next
  case (Some ED)
  show ?thesis
  proof (cases "split ED")
    case Nil
    with Some show ?thesis by (simp add: editor_from_environ_def)
  next
    case (Cons base rest)
    from set_editor_returns [of base "join '' '' rest" st]
    obtain r st' where "set_editor base (join '' '' rest) st = Some (r, st')" by blast
    with Some Cons show ?thesis
      by (cases r) (simp_all add: editor_from_environ_def)
  qed
qed

lemma choose_template_returns: "\<exists>r st'. choose_template env editor st = Some (r, st')"
  by (simp add: choose_template_def set_editor_returns editor_from_environ_returns)

lemma edit_returns: "\<exists>r st'. edit env obj editor bg st = Some (r, st')"
proof -
  from choose_template_returns [of env editor st]
  obtain r st1 where "choose_template env editor st = Some (r, st1)" by blast
  then show ?thesis
    by (simp add: edit_def split: sum.splits option.splits prod.splits)
qed

lemma step_returns:
  assumes "\<forall>a. c = SetEditTemplate a \<longrightarrow> template (as_template a) \<noteq> []"
  shows "\<exists>r st'. step env c st = Some (r, st')"
proof (cases c)
  case (SetEditTemplate a)
  with assms show ?thesis by (simp add: set_edit_template_returns)
next
  case (SetEditor n opts)
  then show ?thesis by (simp add: set_editor_returns)
next
  case (Edit obj editor bg)
  then show ?thesis by (simp add: edit_returns)
qed

lemma run_returns:
  "\<forall>c \<in> set cs. \<forall>a. c = SetEditTemplate a \<longrightarrow> template (as_template a) \<noteq> [] \<Longrightarrow>
     \<exists>st'. run env cs st = Some st'"
proof (induction cs arbitrary: st)
  case Nil
  show ?case by simp
next
  case (Cons c cs)
  from Cons.prems have "\<forall>a. c = SetEditTemplate a \<longrightarrow> template (as_template a) \<noteq> []" by simp
  from step_returns [OF this] obtain r st1 where s: "step env c st = Some (r, st1)" by blast
  from Cons.prems have "\<forall>c \<in> set cs. \<forall>a. c = SetEditTemplate a \<longrightarrow> template (as_template a) \<noteq> []"
    by simp
  from Cons.IH [OF this] obtain st' where "run env cs st1 = Some st'" by blast
  with s show ?case by simp
qed

text \<open>A well-formed template with the allowed placeholders is installed.\<close>

lemma set_edit_template_installs:
  assumes "template (as_template a) \<noteq> []"
    and "wellformed (find_matches (template (as_template a)))"
    and "allowed (as_template a)"
  shows "set_edit_template a st = Some (Inr (), st\<lparr>edit_template := Some (as_template a)\<rparr>)"
  using assms(2,3) by (simp add: set_edit_template_nonempty [OF assms(1)])

lemma set_editor_installs:
  assumes "map_of template_defaults editor_name = Some t"
    and "wellformed (find_matches (safe_substitute t [(''opts'', PyStr opts)]))"
    and "allowed (Template (safe_substitute t [(''opts'', PyStr opts)]))"
  shows "set_editor editor_name opts st =
           Some (Inr (), st\<lparr>edit_template :=
                            Some (Template (safe_substitute t [(''opts'', PyStr opts)]))\<rparr>)"
proof -
  let ?a = "Tmpl (Template (safe_substitute t [(''opts'', PyStr opts)]))"
  have ne: "template (as_template ?a) \<noteq> []"
    using safe_substitute_default_nonempty [OF assms(1)] by simp
  from set_edit_template_installs [of ?a st] ne assms(2,3)
  have "set_edit_template ?a st = Some (Inr (), st\<lparr>edit_template := Some (as_template ?a)\<rparr>)"
    by simp
  with assms(1) show ?thesis by (simp add: set_editor_def)
qed

section \<open>The background marker\<close>

lemma background_nonempty:
  "cmd \<noteq> [] \<Longrightarrow> background bg cmd =
     Inr (if bg = Some True \<and> last cmd \<noteq> CHR ''&'' then cmd @ ''&''
          else if bg = Some False \<and> last cmd = CHR ''&'' then butlast cmd
          else cmd)"
  by (auto simp: background_def last_char_def)

lemma background_unset: "background None cmd = Inr cmd"
  by (simp add: background_def)

lemma background_empty: "background (Some b) [] = Inl IndexError"
  by (cases b) (simp_all add: background_def last_char_def)

section \<open>The claims\<close>

text \<open>
  Claim C1: \<^verbatim>\<open>set_edit_template\<close> applied to the empty template string ends and raises.
  The code does not: \<^verbatim>\<open>substitute\<close> returns the empty string, which \<^verbatim>\<open>while not dummy\<close>
  takes for "no result yet", so the loop of \<^verbatim>\<open>template_fields\<close> runs for ever and the
  call returns nothing, whatever the state.
\<close>

theorem set_edit_template_empty_string: "set_edit_template (Str []) st = None"
  by (rule set_edit_template_empty) simp

text \<open>
  Claim C2: where \<^verbatim>\<open>set_edit_template\<close> succeeds the placeholder set is within
  \<^verbatim>\<open>{file, line}\<close> and has \<^verbatim>\<open>file\<close>, and every other template makes it raise.  The
  first half holds, and so does the second for every non-empty template
  (\<open>set_edit_template_nonempty\<close>).  The empty template has no placeholder, so it lacks
  \<^verbatim>\<open>file\<close>, and yet \<^verbatim>\<open>set_edit_template\<close> raises nothing on it: the call does not
  return.
\<close>

theorem set_edit_template_empty_never_raises:
  "\<not> allowed (as_template (Str [])) \<and>
   (\<forall>e st'. set_edit_template (Str []) st \<noteq> Some (Inl e, st'))"
  by (simp add: allowed_def placeholders_empty set_edit_template_empty)

text \<open>
  Claim C3, as amended: a template that references \<^verbatim>\<open>opts\<close> is not permitted as the
  active template.  \<^verbatim>\<open>set_edit_template\<close> raises \<^verbatim>\<open>ValueError\<close> on it and leaves the
  state as it was: the check of line 174 admits \<^verbatim>\<open>file\<close> and \<^verbatim>\<open>line\<close> only.
\<close>

theorem opts_placeholder_not_allowed:
  assumes "''opts'' \<in> placeholders (as_template a)"
  shows "\<exists>e. set_edit_template a st = Some (Inl (ValueError e), st)"
proof -
  from assms have ne: "template (as_template a) \<noteq> []"
    using placeholders_empty [of "as_template a"] by auto
  from assms have "\<not> allowed (as_template a)" by (auto simp: allowed_def)
  then show ?thesis by (simp add: set_edit_template_nonempty [OF ne])
qed

theorem opts_placeholder_not_allowed_witness:
  "''opts'' \<in> placeholders (as_template (Str ''emacs ${opts} +${line} ${file}'')) \<and>
   (\<exists>e. set_edit_template (Str ''emacs ${opts} +${line} ${file}'') unset =
          Some (Inl (ValueError e), unset))"
proof -
  have h: "''opts'' \<in> placeholders (as_template (Str ''emacs ${opts} +${line} ${file}''))"
    by (simp add: eval_template)
  from opts_placeholder_not_allowed [OF h] h show ?thesis by blast
qed

text \<open>
  Claim C3 as stated fails on the template of \<^verbatim>\<open>emacs\<close> in \<^verbatim>\<open>template_defaults\<close>, whose
  placeholder set is \<^verbatim>\<open>{opts, line, file}\<close>.
\<close>

theorem opts_template_rejected:
  "set_edit_template (Str ''emacs ${opts} +${line} ${file}'') unset =
     Some (Inl (ValueError OnlyFileAndLine), unset)"
  by (subst set_edit_template_nonempty) (simp_all add: eval_template)

text \<open>
  Claim C4, as amended: for an object whose source file ends in \<^verbatim>\<open>.py\<close> and has the
  marker \<^verbatim>\<open>*autogenerated*\<close> in its second line, \<^verbatim>\<open>file_and_line\<close> returns the name
  with the extension rewritten to \<^verbatim>\<open>.sage\<close> and then passed through the path rewrite,
  and the line number raw line - 3 + 1, the raw line being the zero-based
  \<^verbatim>\<open>sage_getsourcelines(obj)[1] - 1\<close>.  The name returned ends in \<^verbatim>\<open>.sage\<close> where the
  library root, a pattern of the fragment, is no longer than the stem of the name.
\<close>

theorem file_and_line_preparsed:
  assumes "sage_getfile env obj = Inr (stem @ ''.py'')"
    and "sage_getsourcelines env obj = Inr (src, n)"
    and "open_file env (stem @ ''.py'') = Inr (l1 # (a @ ''*autogenerated*'' @ b) # ls)"
  shows "file_and_line env obj =
           map_sum id (\<lambda>f. (f, (n - 1) - 3 + 1)) (path_rewrite env (stem @ ''.sage'')) \<and>
         (re_sub_known (re_sub env) \<longrightarrow> parse_atoms (SAGE_LIB env) \<noteq> None \<longrightarrow>
          CHR 0x5C \<notin> set (SAGE_SRC env) \<longrightarrow> length (SAGE_LIB env) \<le> length stem \<longrightarrow>
            (\<exists>p. file_and_line env obj = Inr (p @ ''.sage'', (n - 1) - 3 + 1)))"
proof (intro conjI impI)
  note up = undo_preparse_generated [OF assms(3), of "n - 1"]
  show eq: "file_and_line env obj =
           map_sum id (\<lambda>f. (f, (n - 1) - 3 + 1)) (path_rewrite env (stem @ ''.sage''))"
    using assms(1,2) up by (simp add: file_and_line_def split: sum.splits)
  assume known: "re_sub_known (re_sub env)" and frag: "parse_atoms (SAGE_LIB env) \<noteq> None"
    and bs: "CHR 0x5C \<notin> set (SAGE_SRC env)" and le: "length (SAGE_LIB env) \<le> length stem"
  from frag obtain atoms where atoms: "parse_atoms (SAGE_LIB env) = Some atoms" by auto
  let ?f = "sub_anchored atoms (SAGE_SRC env) (stem @ ''.sage'')"
  have pr: "path_rewrite env (stem @ ''.sage'') = Inr ?f"
    by (rule path_rewrite_known [OF known atoms bs])
  from sub_anchored_shape [OF atoms, of "SAGE_SRC env" "stem @ ''.sage''"] le
  have "?f = stem @ ''.sage'' \<or>
        ?f = (SAGE_SRC env @ drop (length (SAGE_LIB env)) stem) @ ''.sage''"
    by auto
  then obtain p where "?f = p @ ''.sage''" by blast
  with eq pr show "\<exists>p. file_and_line env obj = Inr (p @ ''.sage'', (n - 1) - 3 + 1)"
    by simp
qed

theorem file_and_line_preparsed_witness:
  "sage_getfile preparsed_env () = Inr (''/lib/sage/all'' @ ''.py'') \<and>
   sage_getsourcelines preparsed_env () = Inr ([], 10) \<and>
   open_file preparsed_env (''/lib/sage/all'' @ ''.py'') =
     Inr ((''# -*- coding: utf-8 -*-'' @ [CHR 0x0A]) #
          (''# This file was '' @ ''*autogenerated*'' @ ('' from all.sage'' @ [CHR 0x0A])) # []) \<and>
   re_sub_known (re_sub preparsed_env) \<and>
   parse_atoms (SAGE_LIB preparsed_env) \<noteq> None \<and>
   CHR 0x5C \<notin> set (SAGE_SRC preparsed_env) \<and>
   length (SAGE_LIB preparsed_env) \<le> length ''/lib/sage/all'' \<and>
   file_and_line preparsed_env () = Inr (''/src/sage/all.sage'', 7) \<and>
   (\<exists>p. file_and_line preparsed_env () = Inr (p @ ''.sage'', (10 - 1) - 3 + 1))"
proof -
  have g: "sage_getfile preparsed_env () = Inr (''/lib/sage/all'' @ ''.py'')"
    by (simp add: preparsed_env_def)
  have l: "sage_getsourcelines preparsed_env () = Inr ([], 10)"
    by (simp add: preparsed_env_def)
  have o: "open_file preparsed_env (''/lib/sage/all'' @ ''.py'') =
     Inr ((''# -*- coding: utf-8 -*-'' @ [CHR 0x0A]) #
          (''# This file was '' @ ''*autogenerated*'' @ ('' from all.sage'' @ [CHR 0x0A])) # [])"
    by (simp add: preparsed_env_def)
  have k: "re_sub_known (re_sub preparsed_env)"
    by (simp add: preparsed_env_def fragment_re_sub_known)
  have pa: "parse_atoms (SAGE_LIB preparsed_env) \<noteq> None"
    by (simp add: preparsed_env_def re_special_def)
  have bs: "CHR 0x5C \<notin> set (SAGE_SRC preparsed_env)"
    by (simp add: preparsed_env_def)
  have le: "length (SAGE_LIB preparsed_env) \<le> length ''/lib/sage/all''"
    by (simp add: preparsed_env_def)
  have pr: "path_rewrite preparsed_env (''/lib/sage/all'' @ ''.sage'') = Inr ''/src/sage/all.sage''"
    by (simp add: preparsed_env_def eval_path_rewrite)
  note t = file_and_line_preparsed [OF g l o]
  have r: "file_and_line preparsed_env () = Inr (''/src/sage/all.sage'', 7)"
    unfolding t [THEN conjunct1] pr by simp
  note e = t [THEN conjunct2, rule_format, OF k pa bs le]
  show ?thesis by (intro conjI) (rule g l o k pa bs le r e)+
qed

text \<open>
  Claim C4 as stated has the name returned end in \<^verbatim>\<open>.sage\<close>.  The path rewrite comes
  after the extension is rewritten and sees the whole name: where the library root
  matches all of it, nothing of the name is left, the extension neither.
\<close>

theorem file_and_line_preparsed_root_is_file:
  "sage_getfile root_is_file_env () = Inr (''/lib/sage/all'' @ ''.py'') \<and>
   open_file root_is_file_env (''/lib/sage/all'' @ ''.py'') =
     Inr ((''# -*- coding: utf-8 -*-'' @ [CHR 0x0A]) #
          (''# This file was '' @ ''*autogenerated*'' @ ('' from all.sage'' @ [CHR 0x0A])) # []) \<and>
   file_and_line root_is_file_env () = Inr (''/src'', 7) \<and>
   \<not> endswith ''/src'' ''.sage''"
proof (intro conjI)
  show "sage_getfile root_is_file_env () = Inr (''/lib/sage/all'' @ ''.py'')"
    by (simp add: root_is_file_env_def preparsed_env_def)
  show "open_file root_is_file_env (''/lib/sage/all'' @ ''.py'') =
     Inr ((''# -*- coding: utf-8 -*-'' @ [CHR 0x0A]) #
          (''# This file was '' @ ''*autogenerated*'' @ ('' from all.sage'' @ [CHR 0x0A])) # [])"
    by (simp add: root_is_file_env_def preparsed_env_def)
  have u: "undo_preparse root_is_file_env ''/lib/sage/all.py'' 9 = Inr (''/lib/sage/all.sage'', 6)"
    by (simp add: undo_preparse_def endswith_def find_def root_is_file_env_def preparsed_env_def)
  have pr: "path_rewrite root_is_file_env ''/lib/sage/all.sage'' = Inr ''/src''"
    by (simp add: root_is_file_env_def preparsed_env_def eval_path_rewrite)
  have g: "sage_getfile root_is_file_env () = Inr ''/lib/sage/all.py''"
    by (simp add: root_is_file_env_def preparsed_env_def)
  have l: "sage_getsourcelines root_is_file_env () = Inr ([], 10)"
    by (simp add: root_is_file_env_def preparsed_env_def)
  show "file_and_line root_is_file_env () = Inr (''/src'', 7)"
    by (simp add: file_and_line_def g l u pr)
  show "\<not> endswith ''/src'' ''.sage''"
    by (simp add: endswith_def)
qed

text \<open>
  Claim C5: the path rewrite replaces the library root where the file name starts with
  it, as a literal prefix, and returns every other name unchanged.  The code hands the
  root to \<^verbatim>\<open>re.sub\<close> unescaped, so a dot of the root matches any character: below, the
  name does not start with the root and is rewritten all the same.  For a root free of
  special characters the claim holds (\<open>path_rewrite_literal\<close>).
\<close>

theorem path_rewrite_root_as_regex:
  assumes "re_sub_known (re_sub env)"
    and "SAGE_LIB env = ''/usr/lib/python3.10/site-packages''"
    and "SAGE_SRC env = ''/src''"
  shows "\<not> startswith ''/usr/lib/python3x10/site-packages/sage/all.py'' (SAGE_LIB env) \<and>
         path_rewrite env ''/usr/lib/python3x10/site-packages/sage/all.py'' =
           Inr ''/src/sage/all.py''"
proof
  show "\<not> startswith ''/usr/lib/python3x10/site-packages/sage/all.py'' (SAGE_LIB env)"
    by (simp add: assms(2))
  have pa: "parse_atoms (SAGE_LIB env) =
      Some (map Lit ''/usr/lib/python3'' @ AnyChar # map Lit ''10/site-packages'')"
    by (simp add: assms(2) re_special_def)
  have bs: "CHR 0x5C \<notin> set (SAGE_SRC env)" by (simp add: assms(3))
  show "path_rewrite env ''/usr/lib/python3x10/site-packages/sage/all.py'' =
           Inr ''/src/sage/all.py''"
    unfolding path_rewrite_known [OF assms(1) pa bs]
    by (simp add: sub_anchored_def assms(3))
qed

theorem path_rewrite_root_as_regex_witness:
  "re_sub_known (re_sub dotted_root_env) \<and>
   SAGE_LIB dotted_root_env = ''/usr/lib/python3.10/site-packages'' \<and>
   SAGE_SRC dotted_root_env = ''/src'' \<and>
   \<not> startswith ''/usr/lib/python3x10/site-packages/sage/all.py'' (SAGE_LIB dotted_root_env) \<and>
   path_rewrite dotted_root_env ''/usr/lib/python3x10/site-packages/sage/all.py'' =
     Inr ''/src/sage/all.py''"
proof -
  have k: "re_sub_known (re_sub dotted_root_env)"
    by (simp add: dotted_root_env_def preparsed_env_def fragment_re_sub_known)
  have l: "SAGE_LIB dotted_root_env = ''/usr/lib/python3.10/site-packages''"
    by (simp add: dotted_root_env_def)
  have r: "SAGE_SRC dotted_root_env = ''/src''"
    by (simp add: dotted_root_env_def preparsed_env_def)
  note t = path_rewrite_root_as_regex [OF k l r]
  show ?thesis by (intro conjI) (rule k l r t [THEN conjunct1] t [THEN conjunct2])+
qed

text \<open>
  Claim C6: for every command produced from the active template, \<^verbatim>\<open>edit\<close> appends one
  \<^verbatim>\<open>&\<close> when \<^verbatim>\<open>bg\<close> is true and the command does not end in \<^verbatim>\<open>&\<close>, strips one when
  \<^verbatim>\<open>bg\<close> is false and the command ends in \<^verbatim>\<open>&\<close>, and leaves the command alone otherwise.
  This holds for every non-empty command (\<open>background_nonempty\<close>) and whenever \<^verbatim>\<open>bg\<close> is
  unset (\<open>background_unset\<close>).  The template \<^verbatim>\<open>${file}\<close> is accepted, and for an
  object resolved to the empty file name it produces the empty command: that command does not
  end in \<^verbatim>\<open>&\<close>, and with \<^verbatim>\<open>bg=True\<close> the code raises \<^verbatim>\<open>IndexError\<close> at \<^verbatim>\<open>cmd[-1]\<close>
  and runs nothing.
\<close>

theorem edit_empty_command_background:
  "set_edit_template (Str ''${file}'') unset =
     Some (Inr (), unset\<lparr>edit_template := Some (Template ''${file}'')\<rparr>) \<and>
   edit empty_name_env () None (Some True) (unset\<lparr>edit_template := Some (Template ''${file}'')\<rparr>) =
     Some (Inl IndexError, unset\<lparr>edit_template := Some (Template ''${file}'')\<rparr>)"
proof
  show "set_edit_template (Str ''${file}'') unset =
     Some (Inr (), unset\<lparr>edit_template := Some (Template ''${file}'')\<rparr>)"
    by (subst set_edit_template_nonempty) (simp_all add: eval_template)
  have f: "file_and_line empty_name_env () = Inr ([], 1)"
    by (simp add: file_and_line_def empty_name_env_def undo_preparse_def endswith_def
        eval_path_rewrite)
  have s: "substitute (Template ''${file}'') [(''line'', PyInt 1), (''file'', PyStr [])] = Inr []"
    by (simp add: substitute_def eval_template)
  show "edit empty_name_env () None (Some True) (unset\<lparr>edit_template := Some (Template ''${file}'')\<rparr>) =
     Some (Inl IndexError, unset\<lparr>edit_template := Some (Template ''${file}'')\<rparr>)"
    by (simp add: edit_def choose_template_def truthy_def unset_def f s background_empty)
qed

text \<open>
  Claim C7: when \<^verbatim>\<open>set_edit_template\<close> accepts a template, reading the active template
  back and setting it again with its own string succeeds and gives the same state, hence
  the same active template.
\<close>

theorem set_edit_template_roundtrip:
  assumes "set_edit_template a st = Some (Inr (), st')"
  shows "\<exists>t. edit_template st' = Some t \<and> t = as_template a \<and>
             set_edit_template (Str (template t)) st' = Some (Inr (), st')"
proof -
  from set_edit_template_cases [OF assms]
  have st': "st' = st\<lparr>edit_template := Some (as_template a)\<rparr>" by auto
  have same: "as_template (Str (template (as_template a))) = as_template a" by simp
  have "set_edit_template (Str (template (as_template a))) st' = Some (Inr (), st')"
    using assms unfolding st'
    by (auto simp: set_edit_template_def Let_def split: option.splits sum.splits if_splits)
  with st' show ?thesis by simp
qed

theorem set_edit_template_roundtrip_witness:
  "set_edit_template (Str ''vi -c ${line} ${file}'') unset =
     Some (Inr (), unset\<lparr>edit_template := Some (Template ''vi -c ${line} ${file}'')\<rparr>) \<and>
   (\<exists>t. edit_template (unset\<lparr>edit_template := Some (Template ''vi -c ${line} ${file}'')\<rparr>) = Some t \<and>
        t = as_template (Str ''vi -c ${line} ${file}'') \<and>
        set_edit_template (Str (template t))
          (unset\<lparr>edit_template := Some (Template ''vi -c ${line} ${file}'')\<rparr>) =
        Some (Inr (), unset\<lparr>edit_template := Some (Template ''vi -c ${line} ${file}'')\<rparr>))"
proof -
  have h: "set_edit_template (Str ''vi -c ${line} ${file}'') unset =
     Some (Inr (), unset\<lparr>edit_template := Some (Template ''vi -c ${line} ${file}'')\<rparr>)"
    by (subst set_edit_template_nonempty) (simp_all add: eval_template)
  note r = set_edit_template_roundtrip [OF h]
  show ?thesis by (intro conjI) (rule h r)+
qed

text \<open>
  Claim C8, as amended: the active template starts unset; a sequence of calls of
  \<^verbatim>\<open>set_edit_template\<close>, \<^verbatim>\<open>set_editor\<close> and \<^verbatim>\<open>edit\<close> runs to its end unless it sets the
  empty template, and once the template is set no such sequence unsets it.  The template
  changes only through a successful call of \<^verbatim>\<open>set_edit_template\<close> or \<^verbatim>\<open>set_editor\<close>,
  made directly or by \<^verbatim>\<open>edit\<close>.  Such a call succeeds on every non-empty, well-formed
  template with the allowed placeholders and installs that template; a failing one
  leaves the state as it was.  A call of \<^verbatim>\<open>edit\<close>, failing or not, leaves the active
  template as its own call of \<^verbatim>\<open>set_editor\<close> leaves it, and unchanged where it makes
  none.
\<close>

theorem active_template_transitions:
  "edit_template unset = None \<and>
   ((\<forall>c \<in> set cs. \<forall>a. c = SetEditTemplate a \<longrightarrow> template (as_template a) \<noteq> []) \<longrightarrow>
      (\<exists>st'. run env cs st = Some st')) \<and>
   (edit_template st \<noteq> None \<longrightarrow> run env cs st = Some st' \<longrightarrow> edit_template st' \<noteq> None) \<and>
   (step env c st = Some (r, st2) \<longrightarrow> edit_template st2 \<noteq> edit_template st \<longrightarrow>
      (case c of
         SetEditTemplate a \<Rightarrow> r = Inr () \<and> edit_template st2 = Some (as_template a)
       | SetEditor n opts \<Rightarrow>
           r = Inr () \<and>
           (\<exists>t. map_of template_defaults n = Some t \<and>
              edit_template st2 = Some (Template (safe_substitute t [(''opts'', PyStr opts)])))
       | Edit obj editor bg \<Rightarrow>
           \<exists>n opts st3. edit_editor_call env editor st = Some (n, opts) \<and>
             set_editor n opts st = Some (Inr (), st3) \<and>
             edit_template st2 = edit_template st3)) \<and>
   (template (as_template a) \<noteq> [] \<longrightarrow>
    wellformed (find_matches (template (as_template a))) \<longrightarrow> allowed (as_template a) \<longrightarrow>
      set_edit_template a st = Some (Inr (), st\<lparr>edit_template := Some (as_template a)\<rparr>)) \<and>
   (set_edit_template a st = Some (r, st2) \<longrightarrow>
      r = Inr () \<and> st2 = st\<lparr>edit_template := Some (as_template a)\<rparr> \<or>
      (\<exists>e. r = Inl e) \<and> st2 = st) \<and>
   (map_of template_defaults editor_name = Some t \<longrightarrow>
    wellformed (find_matches (safe_substitute t [(''opts'', PyStr opts)])) \<longrightarrow>
    allowed (Template (safe_substitute t [(''opts'', PyStr opts)])) \<longrightarrow>
      set_editor editor_name opts st =
        Some (Inr (), st\<lparr>edit_template :=
                         Some (Template (safe_substitute t [(''opts'', PyStr opts)]))\<rparr>)) \<and>
   (set_editor editor_name opts st = Some (r, st2) \<longrightarrow>
      r = Inr () \<and>
      (\<exists>t. map_of template_defaults editor_name = Some t \<and>
           st2 = st\<lparr>edit_template :=
                     Some (Template (safe_substitute t [(''opts'', PyStr opts)]))\<rparr>) \<or>
      (\<exists>e. r = Inl e) \<and> st2 = st) \<and>
   (edit env obj editor bg st = Some (r, st2) \<longrightarrow>
      (case edit_editor_call env editor st of
         None \<Rightarrow> edit_template st2 = edit_template st
       | Some (n, opts) \<Rightarrow>
           \<exists>r1 st1. set_editor n opts st = Some (r1, st1) \<and>
             edit_template st2 = edit_template st1))"
proof (intro conjI impI)
  show "edit_template unset = None" by (simp add: unset_def)
next
  assume "\<forall>c \<in> set cs. \<forall>a. c = SetEditTemplate a \<longrightarrow> template (as_template a) \<noteq> []"
  then show "\<exists>st'. run env cs st = Some st'" by (rule run_returns)
next
  assume "edit_template st \<noteq> None" and "run env cs st = Some st'"
  then show "edit_template st' \<noteq> None" using run_keeps_set by blast
next
  assume s: "step env c st = Some (r, st2)" and d: "edit_template st2 \<noteq> edit_template st"
  show "case c of
         SetEditTemplate a \<Rightarrow> r = Inr () \<and> edit_template st2 = Some (as_template a)
       | SetEditor n opts \<Rightarrow>
           r = Inr () \<and>
           (\<exists>t. map_of template_defaults n = Some t \<and>
              edit_template st2 = Some (Template (safe_substitute t [(''opts'', PyStr opts)])))
       | Edit obj editor bg \<Rightarrow>
           \<exists>n opts st3. edit_editor_call env editor st = Some (n, opts) \<and>
             set_editor n opts st = Some (Inr (), st3) \<and>
             edit_template st2 = edit_template st3"
  proof (cases c)
    case (SetEditTemplate a)
    with s have "set_edit_template a st = Some (r, st2)" by simp
    from set_edit_template_cases [OF this] d SetEditTemplate show ?thesis by auto
  next
    case (SetEditor n opts)
    with s have "set_editor n opts st = Some (r, st2)" by simp
    from set_editor_cases [OF this] d SetEditor show ?thesis by auto
  next
    case (Edit obj editor bg)
    with s have "edit env obj editor bg st = Some (r, st2)" by simp
    from edit_template_change_own_call [OF this d] Edit show ?thesis by simp
  qed
next
  assume "template (as_template a) \<noteq> []"
    and "wellformed (find_matches (template (as_template a)))" and "allowed (as_template a)"
  then show "set_edit_template a st = Some (Inr (), st\<lparr>edit_template := Some (as_template a)\<rparr>)"
    by (rule set_edit_template_installs)
next
  assume "set_edit_template a st = Some (r, st2)"
  from set_edit_template_cases [OF this]
  show "r = Inr () \<and> st2 = st\<lparr>edit_template := Some (as_template a)\<rparr> \<or>
        (\<exists>e. r = Inl e) \<and> st2 = st"
    by blast
next
  assume "map_of template_defaults editor_name = Some t"
    and "wellformed (find_matches (safe_substitute t [(''opts'', PyStr opts)]))"
    and "allowed (Template (safe_substitute t [(''opts'', PyStr opts)]))"
  then show "set_editor editor_name opts st =
        Some (Inr (), st\<lparr>edit_template :=
                         Some (Template (safe_substitute t [(''opts'', PyStr opts)]))\<rparr>)"
    by (rule set_editor_installs)
next
  assume "set_editor editor_name opts st = Some (r, st2)"
  then show "r = Inr () \<and>
      (\<exists>t. map_of template_defaults editor_name = Some t \<and>
           st2 = st\<lparr>edit_template :=
                     Some (Template (safe_substitute t [(''opts'', PyStr opts)]))\<rparr>) \<or>
      (\<exists>e. r = Inl e) \<and> st2 = st"
    by (rule set_editor_cases)
next
  assume "edit env obj editor bg st = Some (r, st2)"
  then show "case edit_editor_call env editor st of
         None \<Rightarrow> edit_template st2 = edit_template st
       | Some (n, opts) \<Rightarrow>
           \<exists>r1 st1. set_editor n opts st = Some (r1, st1) \<and>
             edit_template st2 = edit_template st1"
    by (rule edit_own_call)
qed

theorem active_template_transitions_witness:
  "edit_template (unset\<lparr>edit_template := Some (Template ''ed ${file}'')\<rparr>) \<noteq> None \<and>
   (\<exists>st'. run no_source_env
     [Edit () (Some ''vi'') None, SetEditTemplate (Str ''${line}''), SetEditor ''nano'' []]
     (unset\<lparr>edit_template := Some (Template ''ed ${file}'')\<rparr>) = Some st') \<and>
   run no_source_env
     [Edit () (Some ''vi'') None, SetEditTemplate (Str ''${line}''), SetEditor ''nano'' []]
     (unset\<lparr>edit_template := Some (Template ''ed ${file}'')\<rparr>) =
     Some (unset\<lparr>edit_template := Some (Template ''vi -c ${line} ${file}'')\<rparr>) \<and>
   edit_template (unset\<lparr>edit_template := Some (Template ''vi -c ${line} ${file}'')\<rparr>) \<noteq> None \<and>
   step no_source_env (SetEditTemplate (Str ''ed ${file}'')) unset =
     Some (Inr (), unset\<lparr>edit_template := Some (Template ''ed ${file}'')\<rparr>) \<and>
   edit_template (unset\<lparr>edit_template := Some (Template ''ed ${file}'')\<rparr>) \<noteq> edit_template unset \<and>
   edit_template (unset\<lparr>edit_template := Some (Template ''ed ${file}'')\<rparr>) =
     Some (as_template (Str ''ed ${file}'')) \<and>
   template (as_template (Str ''ed ${file}'')) \<noteq> [] \<and>
   wellformed (find_matches (template (as_template (Str ''ed ${file}'')))) \<and>
   allowed (as_template (Str ''ed ${file}'')) \<and>
   set_edit_template (Str ''ed ${file}'') unset =
     Some (Inr (), unset\<lparr>edit_template := Some (as_template (Str ''ed ${file}''))\<rparr>) \<and>
   set_edit_template (Str ''${line}'')
     (unset\<lparr>edit_template := Some (Template ''vi -c ${line} ${file}'')\<rparr>) =
     Some (Inl (ValueError OnlyFileAndLine),
           unset\<lparr>edit_template := Some (Template ''vi -c ${line} ${file}'')\<rparr>) \<and>
   map_of template_defaults ''vi'' = Some (Template ''vi -c ${line} ${file}'') \<and>
   set_editor ''vi'' [] unset =
     Some (Inr (), unset\<lparr>edit_template :=
        Some (Template (safe_substitute (Template ''vi -c ${line} ${file}'') [(''opts'', PyStr [])]))\<rparr>) \<and>
   set_editor ''nano'' [] unset = Some (Inl (ValueError EditorNotKnown), unset) \<and>
   edit no_source_env () (Some ''vi'') None (unset\<lparr>edit_template := Some (Template ''ed ${file}'')\<rparr>) =
     Some (Inl (EnvError ''TypeError''),
           unset\<lparr>edit_template := Some (Template ''vi -c ${line} ${file}'')\<rparr>) \<and>
   (\<exists>r1 st1. set_editor ''vi'' [] (unset\<lparr>edit_template := Some (Template ''ed ${file}'')\<rparr>) =
        Some (r1, st1) \<and>
      edit_template (unset\<lparr>edit_template := Some (Template ''vi -c ${line} ${file}'')\<rparr>) =
        edit_template st1)"
proof -
  let ?S = "unset\<lparr>edit_template := Some (Template ''ed ${file}'')\<rparr>"
  let ?V = "unset\<lparr>edit_template := Some (Template ''vi -c ${line} ${file}'')\<rparr>"
  let ?cs = "[Edit () (Some ''vi'') None, SetEditTemplate (Str ''${line}''), SetEditor ''nano'' []]"
  let ?vi = "Template ''vi -c ${line} ${file}''"
  note th = active_template_transitions
  have a: "edit_template ?S \<noteq> None" by simp
  have f: "file_and_line no_source_env () = Inl (EnvError ''TypeError'')"
    by (simp add: file_and_line_def no_source_env_def)
  have e: "edit no_source_env () (Some ''vi'') None ?S = Some (Inl (EnvError ''TypeError''), ?V)"
    by (simp add: edit_def choose_template_def truthy_def set_editor_vi f)
  have t: "set_edit_template (Str ''${line}'') ?V = Some (Inl (ValueError OnlyFileAndLine), ?V)"
    by (subst set_edit_template_nonempty) (simp_all add: eval_template)
  have n: "set_editor ''nano'' [] ?V = Some (Inl (ValueError EditorNotKnown), ?V)"
    by (simp add: set_editor_def template_defaults_def)
  have n0: "set_editor ''nano'' [] unset = Some (Inl (ValueError EditorNotKnown), unset)"
    by (simp add: set_editor_def template_defaults_def)
  have b: "run no_source_env ?cs ?S = Some ?V" by (simp add: e t n)
  have c: "step no_source_env (SetEditTemplate (Str ''ed ${file}'')) unset = Some (Inr (), ?S)"
    by simp (subst set_edit_template_nonempty, simp_all add: eval_template)
  have d: "edit_template ?S \<noteq> edit_template unset" by (simp add: unset_def)
  have ne: "\<forall>c \<in> set ?cs. \<forall>a. c = SetEditTemplate a \<longrightarrow> template (as_template a) \<noteq> []"
    by simp
  have h1: "template (as_template (Str ''ed ${file}'')) \<noteq> []" by simp
  have h2: "wellformed (find_matches (template (as_template (Str ''ed ${file}''))))"
    by (simp add: eval_template)
  have h3: "allowed (as_template (Str ''ed ${file}''))" by (simp add: eval_template)
  have m: "map_of template_defaults ''vi'' = Some ?vi" by (simp add: template_defaults_def)
  have sv: "safe_substitute ?vi [(''opts'', PyStr [])] = ''vi -c ${line} ${file}''"
    by (simp add: safe_substitute_def eval_template)
  have v2: "wellformed (find_matches (safe_substitute ?vi [(''opts'', PyStr [])]))"
    unfolding sv by (simp add: eval_template)
  have v3: "allowed (Template (safe_substitute ?vi [(''opts'', PyStr [])]))"
    unfolding sv by (simp add: eval_template)
  have c0: "edit_editor_call no_source_env (Some ''vi'') ?S = Some (''vi'', [])"
    by (simp add: edit_editor_call_def truthy_def)
  from th [THEN conjunct2, THEN conjunct1, THEN mp, OF ne]
  have 0: "\<exists>st'. run no_source_env ?cs ?S = Some st'" .
  from th [THEN conjunct2, THEN conjunct2, THEN conjunct1, rule_format, OF a b]
  have 1: "edit_template ?V \<noteq> None" .
  from th [THEN conjunct2, THEN conjunct2, THEN conjunct2, THEN conjunct1, rule_format, OF c d]
  have 2: "edit_template ?S = Some (as_template (Str ''ed ${file}''))" by simp
  from th [THEN conjunct2, THEN conjunct2, THEN conjunct2, THEN conjunct2, THEN conjunct1,
      rule_format, OF h1 h2 h3]
  have 3: "set_edit_template (Str ''ed ${file}'') unset =
     Some (Inr (), unset\<lparr>edit_template := Some (as_template (Str ''ed ${file}''))\<rparr>)" .
  from th [THEN conjunct2, THEN conjunct2, THEN conjunct2, THEN conjunct2, THEN conjunct2,
      THEN conjunct2, THEN conjunct1, rule_format, OF m v2 v3]
  have 4: "set_editor ''vi'' [] unset =
     Some (Inr (), unset\<lparr>edit_template :=
        Some (Template (safe_substitute ?vi [(''opts'', PyStr [])]))\<rparr>)" .
  from th [THEN conjunct2, THEN conjunct2, THEN conjunct2, THEN conjunct2, THEN conjunct2,
      THEN conjunct2, THEN conjunct2, THEN conjunct2, rule_format, OF e]
  have 5: "\<exists>r1 st1. set_editor ''vi'' [] ?S = Some (r1, st1) \<and>
             edit_template ?V = edit_template st1"
    unfolding c0 by simp
  show ?thesis by (intro conjI) (rule a 0 b 1 c d 2 h1 h2 h3 3 t m 4 n0 e 5)+
qed

text \<open>
  Claim C8 as stated has every failing call leave the active template unchanged.  A call
  of \<^verbatim>\<open>edit\<close> with an editor name installs the editor's template first (line 255) and
  may fail afterwards, here in \<^verbatim>\<open>file_and_line\<close>: the call raises and the active
  template is another one.
\<close>

theorem failing_edit_replaces_template:
  "edit no_source_env () (Some ''vi'') None (unset\<lparr>edit_template := Some (Template ''ed ${file}'')\<rparr>) =
     Some (Inl (EnvError ''TypeError''),
           unset\<lparr>edit_template := Some (Template ''vi -c ${line} ${file}'')\<rparr>) \<and>
   Some (Template ''vi -c ${line} ${file}'') \<noteq>
     edit_template (unset\<lparr>edit_template := Some (Template ''ed ${file}'')\<rparr>)"
proof
  have f: "file_and_line no_source_env () = Inl (EnvError ''TypeError'')"
    by (simp add: file_and_line_def no_source_env_def)
  show "edit no_source_env () (Some ''vi'') None (unset\<lparr>edit_template := Some (Template ''ed ${file}'')\<rparr>) =
     Some (Inl (EnvError ''TypeError''),
           unset\<lparr>edit_template := Some (Template ''vi -c ${line} ${file}'')\<rparr>)"
    by (simp add: edit_def choose_template_def truthy_def set_editor_vi f)
  show "Some (Template ''vi -c ${line} ${file}'') \<noteq>
     edit_template (unset\<lparr>edit_template := Some (Template ''ed ${file}'')\<rparr>)"
    by simp
qed

text \<open>
  Claim C10: the adjustment of the background marker reads \<^verbatim>\<open>cmd[-1]\<close> with no guard.
  It returns a command for every non-empty command and whenever \<^verbatim>\<open>bg\<close> is unset, and
  raises \<^verbatim>\<open>IndexError\<close> on the empty command when \<^verbatim>\<open>bg\<close> is true or false; \<^verbatim>\<open>edit\<close>
  reaches that branch with the active template \<^verbatim>\<open>${file}\<close> and an empty file name.
\<close>

theorem background_total_iff_nonempty:
  "(cmd \<noteq> [] \<longrightarrow> (\<exists>c. background bg cmd = Inr c)) \<and>
   background None cmd = Inr cmd \<and>
   background (Some b) [] = Inl IndexError \<and>
   (edit_template st = Some (Template ''${file}'') \<longrightarrow> file_and_line env obj = Inr ([], n) \<longrightarrow>
      edit env obj None (Some b) st = Some (Inl IndexError, st))"
proof (intro conjI impI)
  assume "cmd \<noteq> []"
  then show "\<exists>c. background bg cmd = Inr c" by (simp add: background_nonempty)
next
  show "background None cmd = Inr cmd" by (rule background_unset)
next
  show "background (Some b) [] = Inl IndexError" by (rule background_empty)
next
  assume t: "edit_template st = Some (Template ''${file}'')"
    and f: "file_and_line env obj = Inr ([], n)"
  have s: "substitute (Template ''${file}'') [(''line'', PyInt n), (''file'', PyStr [])] = Inr []"
    by (simp add: substitute_def eval_template)
  show "edit env obj None (Some b) st = Some (Inl IndexError, st)"
    by (simp add: edit_def choose_template_def truthy_def t f s background_empty)
qed

theorem background_total_iff_nonempty_witness:
  "''vi'' \<noteq> [] \<and> (\<exists>c. background (Some True) ''vi'' = Inr c) \<and>
   edit_template (unset\<lparr>edit_template := Some (Template ''${file}'')\<rparr>) = Some (Template ''${file}'') \<and>
   file_and_line empty_name_env () = Inr ([], 1) \<and>
   edit empty_name_env () None (Some False) (unset\<lparr>edit_template := Some (Template ''${file}'')\<rparr>) =
     Some (Inl IndexError, unset\<lparr>edit_template := Some (Template ''${file}'')\<rparr>)"
proof -
  have a: "''vi'' \<noteq> []" by simp
  have t: "edit_template (unset\<lparr>edit_template := Some (Template ''${file}'')\<rparr>) = Some (Template ''${file}'')"
    by simp
  have f: "file_and_line empty_name_env () = Inr ([], 1)"
    by (simp add: file_and_line_def empty_name_env_def undo_preparse_def endswith_def
        eval_path_rewrite)
  note th = background_total_iff_nonempty
    [of "''vi''" "Some True" False "unset\<lparr>edit_template := Some (Template ''${file}'')\<rparr>"
        empty_name_env "()" 1]
  from th [THEN conjunct1, rule_format, OF a]
  have 1: "\<exists>c. background (Some True) ''vi'' = Inr c" .
  from th [THEN conjunct2, THEN conjunct2, THEN conjunct2, rule_format, OF t f]
  have 2: "edit empty_name_env () None (Some False) (unset\<lparr>edit_template := Some (Template ''${file}'')\<rparr>) =
     Some (Inl IndexError, unset\<lparr>edit_template := Some (Template ''${file}'')\<rparr>)" .
  show ?thesis by (intro conjI) (rule a 1 t f 2)+
qed

end
